theory Spec2Isabelle
  imports Main
begin

section \<open>Python values, datetimes and errors\<close>

text \<open>
  The values that appear in conditions, extensions and result rows. \<open>PIso t\<close> stands for
  the ISO-8601 text of the datetime that lies \<open>t\<close> whole seconds after
  \<^verbatim>\<open>datetime.min\<close> (0001-01-01T00:00:00); it is what \<^verbatim>\<open>datetime.isoformat()\<close>
  produces. The text itself is kept abstract; texts of one format order as their
  datetimes do, which is how \<^verbatim>\<open>min\<close> and \<^verbatim>\<open>max\<close> are read on them below.
\<close>

datatype pyval = PNone | PInt int | PStr string | PIso int | PList "pyval list"

datatype error = OverflowError | KeyError | TypeError | ValueError | StopIteration

text \<open>
  Datetimes are whole seconds since \<^verbatim>\<open>datetime.min\<close>; the largest one is
  9999-12-31T23:59:59. \<^verbatim>\<open>timedelta(seconds=n)\<close> raises OverflowError when the
  normalised day count leaves \<open>\<plusminus>999999999\<close>, and datetime arithmetic raises it
  when the result leaves the datetime range.
\<close>

definition DATETIME_MAX :: int where
  "DATETIME_MAX = 315537897599"

definition timedelta_seconds :: "int \<Rightarrow> error + int" where
  "timedelta_seconds n =
     (if n div 86400 < - 999999999 \<or> 999999999 < n div 86400 then Inl OverflowError
      else Inr n)"

definition datetime_add :: "int \<Rightarrow> int \<Rightarrow> error + int" where
  "datetime_add dt td =
     (let r = dt + td in if r < 0 \<or> DATETIME_MAX < r then Inl OverflowError else Inr r)"

definition datetime_sub :: "int \<Rightarrow> int \<Rightarrow> error + int" where
  "datetime_sub dt td = datetime_add dt (- td)"

text \<open>\<^verbatim>\<open>dt - timedelta(seconds=n)\<close> and \<^verbatim>\<open>dt + timedelta(seconds=n)\<close>.\<close>

definition minus_seconds :: "int \<Rightarrow> int \<Rightarrow> error + int" where
  "minus_seconds dt n =
     (case timedelta_seconds n of Inl e \<Rightarrow> Inl e | Inr td \<Rightarrow> datetime_sub dt td)"

definition plus_seconds :: "int \<Rightarrow> int \<Rightarrow> error + int" where
  "plus_seconds dt n =
     (case timedelta_seconds n of Inl e \<Rightarrow> Inl e | Inr td \<Rightarrow> datetime_add dt td)"

definition isoformat :: "int \<Rightarrow> pyval" where
  "isoformat t = PIso t"

text \<open>
  \<^verbatim>\<open>math.ceil(a / float(b))\<close> for \<open>b > 0\<close>. The quotient of two integers below
  \<open>2^53\<close> is rounded to a double that lies on the same side of every integer as the
  exact quotient, so the ceiling is the exact one.
\<close>

definition ceil_div :: "int \<Rightarrow> int \<Rightarrow> int" where
  "ceil_div a b = - ((- a) div b)"

section \<open>Query, Request and RawQueryResult\<close>

text \<open>
  Modelled from the spec: the classes \<^verbatim>\<open>Query\<close>, \<^verbatim>\<open>Request\<close> and
  \<^verbatim>\<open>RawQueryResult\<close> and the helpers \<^verbatim>\<open>util.is_condition\<close> and
  \<^verbatim>\<open>util.to_list\<close> are imported by the split strategies and are not among the
  sources. A query is its body: selected columns, conditions, group-by, aggregations,
  order-by, limit and offset, read and written through plain getters and setters.
  A top-level condition is a comparison \<open>(field, operator, literal)\<close> or a group of
  alternatives; \<^verbatim>\<open>is_condition\<close> holds of the comparisons. \<open>orderby\<close> is the
  order-by clause as \<^verbatim>\<open>util.to_list\<close> returns it. A request carries its query,
  the extensions (namespace to key to value) and the settings. A result carries its
  rows under \<^verbatim>\<open>result["data"]\<close> and whatever else the store reports.
\<close>

datatype condition = Cond pyval string pyval | OrGroup "(pyval \<times> string \<times> pyval) list"

record query =
  selected_columns :: "string list option"
  conditions :: "condition list option"
  groupby :: "pyval list option"
  aggregations :: "pyval list option"
  orderby :: "pyval list"
  limit :: "int option"
  offset :: int

record request =
  query :: query
  extensions :: "(string \<times> (string \<times> pyval) list) list"
  settings :: pyval

type_synonym row = "(string \<times> pyval) list"

record raw_result =
  data :: "row list"
  meta :: pyval

fun is_condition :: "condition \<Rightarrow> bool" where
  "is_condition (Cond f opr lit) = True"
| "is_condition (OrGroup alts) = False"

definition get_conditions_or_empty :: "query \<Rightarrow> condition list" where
  "get_conditions_or_empty q = (case conditions q of None \<Rightarrow> [] | Some cs \<Rightarrow> cs)"

definition set_conditions :: "condition list \<Rightarrow> query \<Rightarrow> query" where
  "set_conditions cs q = q\<lparr>conditions := Some cs\<rparr>"

definition add_conditions :: "condition list \<Rightarrow> query \<Rightarrow> query" where
  "add_conditions cs q = q\<lparr>conditions := Some (get_conditions_or_empty q @ cs)\<rparr>"

definition set_offset :: "int \<Rightarrow> query \<Rightarrow> query" where
  "set_offset n q = q\<lparr>offset := n\<rparr>"

definition set_limit :: "int \<Rightarrow> query \<Rightarrow> query" where
  "set_limit n q = q\<lparr>limit := Some n\<rparr>"

definition set_selected_columns :: "string list \<Rightarrow> query \<Rightarrow> query" where
  "set_selected_columns cols q = q\<lparr>selected_columns := Some cols\<rparr>"

text \<open>Python truthiness of an optional list: neither \<^verbatim>\<open>None\<close> nor empty.\<close>

definition truthy :: "'a list option \<Rightarrow> bool" where
  "truthy v = (case v of None \<Rightarrow> False | Some xs \<Rightarrow> xs \<noteq> [])"

section \<open>What the strategies read from their environment\<close>

text \<open>
  The runtime configuration (\<^verbatim>\<open>state.get_configs\<close>: the values it returns for
  \<^verbatim>\<open>use_split\<close>, \<^verbatim>\<open>date_align_seconds\<close> and \<^verbatim>\<open>split_step\<close>), and two
  functions whose code is not among the sources and which are therefore parameters:
  \<^verbatim>\<open>util.parse_datetime(value, alignment)\<close> and
  \<^verbatim>\<open>Query.get_all_referenced_columns()\<close>.
\<close>

record externals =
  use_split :: "int option"
  date_align_seconds :: int
  split_step_config :: int
  parse_datetime :: "pyval \<Rightarrow> int \<Rightarrow> error + int"
  get_all_referenced_columns :: "query \<Rightarrow> string list"

definition STEP_GROWTH :: int where
  "STEP_GROWTH = 10"

section \<open>Predicates shared by the strategies (snuba/web/split.py)\<close>

definition is_query_splittable :: "externals \<Rightarrow> query \<Rightarrow> bool" where
  "is_query_splittable ext q =
     (let query_limit = (case limit q of None \<Rightarrow> 0 | Some l \<Rightarrow> l);
          lim = query_limit
      in (case use_split ext of None \<Rightarrow> 0 | Some u \<Rightarrow> u) > 0 \<and> lim > 0 \<and> \<not> truthy (groupby q))"

fun identify_condition :: "condition \<Rightarrow> string \<Rightarrow> string \<Rightarrow> bool" where
  "identify_condition (Cond f opr lit) field operand = (f = PStr field \<and> opr = operand)"
| "identify_condition (OrGroup alts) field operand = False"

definition replace_condition :: "string \<Rightarrow> string \<Rightarrow> pyval \<Rightarrow> query \<Rightarrow> query" where
  "replace_condition field operand new_literal q =
     set_conditions
       (map (\<lambda>cond. if \<not> identify_condition cond field operand then cond
                    else Cond (PStr field) operand new_literal)
            (get_conditions_or_empty q)) q"

section \<open>Request objects, deep copies and the runner\<close>

text \<open>
  Requests are mutable objects and the runner may mutate the one it is given, so the
  strategies run on a store of request objects: an address is an index into \<open>heap\<close>.
  \<^verbatim>\<open>copy.deepcopy\<close> allocates a fresh object with the same contents. A runner maps the
  contents of the request it receives and its own state (the store behind it) to a
  result, the contents it leaves in that request, and its new state; \<open>call_runner\<close>
  writes the contents back to the object passed and appends the call (address and
  contents as passed) to \<open>calls\<close>, a record of the round trips that no code reads.
\<close>

type_synonym 'w runner = "request \<Rightarrow> 'w \<Rightarrow> (raw_result \<times> request) \<times> 'w"

record 'w machine =
  heap :: "request list"
  world :: 'w
  calls :: "(nat \<times> request) list"

definition deepcopy :: "nat \<Rightarrow> 'w machine \<Rightarrow> nat \<times> 'w machine" where
  "deepcopy a m = (length (heap m), m\<lparr>heap := heap m @ [heap m ! a]\<rparr>)"

definition update_query :: "nat \<Rightarrow> (query \<Rightarrow> query) \<Rightarrow> 'w machine \<Rightarrow> 'w machine" where
  "update_query a f m =
     m\<lparr>heap := (heap m)[a := (heap m ! a)\<lparr>query := f (query (heap m ! a))\<rparr>]\<rparr>"

definition update_extensions ::
  "nat \<Rightarrow> ((string \<times> (string \<times> pyval) list) list \<Rightarrow> (string \<times> (string \<times> pyval) list) list)
     \<Rightarrow> 'w machine \<Rightarrow> 'w machine" where
  "update_extensions a f m =
     m\<lparr>heap := (heap m)[a := (heap m ! a)\<lparr>extensions := f (extensions (heap m ! a))\<rparr>]\<rparr>"

definition call_runner :: "'w runner \<Rightarrow> nat \<Rightarrow> 'w machine \<Rightarrow> raw_result \<times> 'w machine" where
  "call_runner runner a m =
     (let ((result, left), w) = runner (heap m ! a) (world m)
      in (result, m\<lparr>heap := (heap m)[a := left], world := w,
                      calls := calls m @ [(a, heap m ! a)]\<rparr>))"

section \<open>TimeSplitQueryStrategy (snuba/web/split.py)\<close>

definition time_can_execute :: "externals \<Rightarrow> string \<Rightarrow> request \<Rightarrow> bool" where
  "time_can_execute ext timestamp_col req =
     (let has_from_date =
            list_ex (\<lambda>condition. identify_condition condition timestamp_col ''>='')
              (get_conditions_or_empty (query req));
          has_to_date =
            list_ex (\<lambda>condition. identify_condition condition timestamp_col ''<'')
              (get_conditions_or_empty (query req))
      in is_query_splittable ext (query req)
         \<and> has_from_date
         \<and> has_to_date
         \<and> take 1 (orderby (query req)) = [PStr (''-'' @ timestamp_col)]
         \<and> offset (query req) < 1000)"

text \<open>The variables of the loop of \<^verbatim>\<open>execute\<close>.\<close>

record split_vars =
  overall_result :: "raw_result option"
  split_start :: int
  split_end :: int
  split_step :: int
  total_results :: int
  remaining_offset :: int

text \<open>
  Lines 144 to 147: the first result becomes the accumulator; later rows are appended
  to it.
\<close>

definition extend_overall :: "raw_result option \<Rightarrow> raw_result \<Rightarrow> raw_result" where
  "extend_overall overall result =
     (case overall of
        None \<Rightarrow> result
      | Some ov \<Rightarrow> ov\<lparr>data := data ov @ data result\<rparr>)"

text \<open>Lines 149 to 152: the accumulator and the remaining offset after trimming.\<close>

definition trim_offset :: "int \<Rightarrow> raw_result \<Rightarrow> raw_result \<times> int" where
  "trim_offset remaining overall =
     (if remaining > 0 \<and> length (data overall) > 0 then
        let to_trim = min remaining (int (length (data overall)))
        in (overall\<lparr>data := drop (nat to_trim) (data overall)\<rparr>, remaining - to_trim)
      else (overall, remaining))"

text \<open>
  Lines 157 to 176, run when fewer rows than the limit are held: \<open>counted\<close> is
  \<^verbatim>\<open>len(result.result["data"])\<close>. Only OverflowError is caught, and it is the only
  error the subtraction raises.
\<close>

definition next_window :: "int \<Rightarrow> int \<Rightarrow> split_vars \<Rightarrow> nat \<Rightarrow> split_vars" where
  "next_window lim from_date v counted =
     (let step =
            (if counted = 0 then split_step v * STEP_GROWTH
             else let remaining = lim - total_results v
                  in split_step v * ceil_div remaining (int counted));
          new_end = split_start v;
          new_start =
            (case minus_seconds new_end step of
               Inr d \<Rightarrow> max d from_date
             | Inl e \<Rightarrow> from_date)
      in v\<lparr>split_step := step, split_end := new_end, split_start := new_start\<rparr>)"

text \<open>
  One pass through the loop body (lines 129 to 176). In the first pass
  \<^verbatim>\<open>overall_result = result\<close> makes both names one object, so the trimmed rows
  assigned to \<^verbatim>\<open>overall_result.result["data"]\<close> are also what
  \<^verbatim>\<open>len(result.result["data"])\<close> counts afterwards; in later passes \<^verbatim>\<open>result\<close>
  is the object the runner just returned.
\<close>

definition time_split_iteration ::
  "string \<Rightarrow> 'w runner \<Rightarrow> nat \<Rightarrow> int \<Rightarrow> int \<Rightarrow> split_vars \<Rightarrow> 'w machine
     \<Rightarrow> split_vars \<times> 'w machine" where
  "time_split_iteration timestamp_col runner request lim from_date v m =
     (let (split_request, m) = deepcopy request m;
          m = update_query split_request
                (replace_condition timestamp_col ''>='' (isoformat (split_start v))) m;
          m = update_query split_request
                (replace_condition timestamp_col ''<'' (isoformat (split_end v))) m;
          m = update_query split_request (set_offset 0) m;
          m = update_query split_request
                (set_limit (lim - total_results v + remaining_offset v)) m;
          (result, m) = call_runner runner split_request m;
          overall = extend_overall (overall_result v) result;
          (overall, remaining) = trim_offset (remaining_offset v) overall;
          result = (case overall_result v of None \<Rightarrow> overall | Some ov \<Rightarrow> result);
          total = int (length (data overall));
          v = v\<lparr>overall_result := Some overall, total_results := total,
                 remaining_offset := remaining\<rparr>
      in if total < lim then (next_window lim from_date v (length (data result)), m)
         else (v, m))"

text \<open>
  The loop runs while the window is not empty and rows are missing. Two summaries of
  one pass serve the proofs: \<open>sub_request\<close> is the contents of the request the runner
  receives, and \<open>advance\<close> is the effect of the pass on the loop variables, given the
  runner's result.
\<close>

definition sub_request :: "string \<Rightarrow> int \<Rightarrow> split_vars \<Rightarrow> request \<Rightarrow> request" where
  "sub_request ts lim v req =
     req\<lparr>query :=
       set_limit (lim - total_results v + remaining_offset v)
         (set_offset 0
           (replace_condition ts ''<'' (isoformat (split_end v))
             (replace_condition ts ''>='' (isoformat (split_start v)) (query req))))\<rparr>"

definition advance :: "int \<Rightarrow> int \<Rightarrow> split_vars \<Rightarrow> raw_result \<Rightarrow> split_vars" where
  "advance lim from_date v result =
     (let kept = fst (trim_offset (remaining_offset v) (extend_overall (overall_result v) result));
          v1 = v\<lparr>overall_result := Some kept, total_results := int (length (data kept)),
                 remaining_offset := snd (trim_offset (remaining_offset v) (extend_overall (overall_result v) result))\<rparr>
      in if total_results v1 < lim then
           next_window lim from_date v1
             (case overall_result v of None \<Rightarrow> length (data kept) | Some ov \<Rightarrow> length (data result))
         else v1)"

lemma iteration_eq:
  "time_split_iteration ts runner request lim from_date v m =
     (case call_runner runner (length (heap m))
             (m\<lparr>heap := heap m @ [sub_request ts lim v (heap m ! request)]\<rparr>) of
        (result, m') \<Rightarrow> (advance lim from_date v result, m'))"
  by (cases "overall_result v")
     (simp_all add: time_split_iteration_def advance_def sub_request_def Let_def deepcopy_def
       update_query_def nth_append case_prod_beta)


lemma next_window_simps:
  "split_end (next_window lim from_date v counted) = split_start v"
  "total_results (next_window lim from_date v counted) = total_results v"
  "overall_result (next_window lim from_date v counted) = overall_result v"
  "remaining_offset (next_window lim from_date v counted) = remaining_offset v"
  by (simp_all add: next_window_def Let_def)

lemma next_window_start: "from_date \<le> split_start (next_window lim from_date v counted)"
  by (simp add: next_window_def Let_def split: sum.splits)

lemma advance_window:
  assumes "total_results (advance lim from_date v result) < lim"
  shows "split_end (advance lim from_date v result) = split_start v
     \<and> from_date \<le> split_start (advance lim from_date v result)"
  using assms
  by (simp add: advance_def Let_def next_window_simps next_window_start split: if_splits)

definition loop_measure :: "int \<Rightarrow> int \<Rightarrow> split_vars \<Rightarrow> nat" where
  "loop_measure lim from_date v =
     (if split_start v < split_end v \<and> total_results v < lim
      then 1 + nat (split_end v - from_date) else 0)"

lemma advance_decreases:
  assumes "split_start v < split_end v" and "total_results v < lim"
  shows "loop_measure lim from_date (advance lim from_date v result) < loop_measure lim from_date v"
proof (cases "total_results (advance lim from_date v result) < lim")
  case True
  from advance_window [OF True] assms show ?thesis
    by (simp add: loop_measure_def)
next
  case False
  with assms show ?thesis by (simp add: loop_measure_def)
qed

lemma iteration_decreases:
  assumes "(v', m') = time_split_iteration ts runner request lim from_date v m"
    and "split_start v < split_end v \<and> total_results v < lim"
  shows "loop_measure lim from_date v' < loop_measure lim from_date v"
proof -
  from assms(1) have "v' = advance lim from_date v
     (fst (call_runner runner (length (heap m))
        (m\<lparr>heap := heap m @ [sub_request ts lim v (heap m ! request)]\<rparr>)))"
    by (simp add: iteration_eq case_prod_beta)
  with assms(2) show ?thesis
    by (simp add: advance_decreases)
qed

function time_split_loop ::
  "string \<Rightarrow> 'w runner \<Rightarrow> nat \<Rightarrow> int \<Rightarrow> int \<Rightarrow> split_vars \<Rightarrow> 'w machine
     \<Rightarrow> split_vars \<times> 'w machine" where
  "time_split_loop timestamp_col runner request lim from_date v m =
     (if split_start v < split_end v \<and> total_results v < lim then
        (case time_split_iteration timestamp_col runner request lim from_date v m of
           (v', m') \<Rightarrow> time_split_loop timestamp_col runner request lim from_date v' m')
      else (v, m))"
  by pat_completeness auto
termination
proof (relation "measure (\<lambda>(ts, runner, request, lim, from_date, v, m). loop_measure lim from_date v)")
  show "wf (measure (\<lambda>(ts :: string, runner :: 'w runner, request :: nat, lim, from_date, v, m :: 'w machine).
           loop_measure lim from_date v))"
    by (rule wf_measure)
next
  fix ts :: string and runner :: "'w runner" and request :: nat and lim from_date :: int
    and v x :: split_vars and m y :: "'w machine"
  assume c: "split_start v < split_end v \<and> total_results v < lim"
    and e: "(x, y) = time_split_iteration ts runner request lim from_date v m"
  have "loop_measure lim from_date x < loop_measure lim from_date v"
    by (rule iteration_decreases [OF e c])
  then show "((ts, runner, request, lim, from_date, x, y), ts, runner, request, lim, from_date, v, m)
        \<in> measure (\<lambda>(ts, runner, request, lim, from_date, v, m). loop_measure lim from_date v)"
    by simp
qed


text \<open>
  \<^verbatim>\<open>next(condition[2] for condition in ... if _identify_condition(...))\<close>: the literal
  of the first condition identified; StopIteration when there is none.
\<close>

fun first_literal :: "condition list \<Rightarrow> string \<Rightarrow> string \<Rightarrow> error + pyval" where
  "first_literal [] field operand = Inl StopIteration"
| "first_literal (Cond f opr lit # cs) field operand =
     (if identify_condition (Cond f opr lit) field operand then Inr lit
      else first_literal cs field operand)"
| "first_literal (OrGroup alts # cs) field operand = first_literal cs field operand"

text \<open>
  \<^verbatim>\<open>TimeSplitQueryStrategy.execute\<close>. The first window is computed outside the
  \<^verbatim>\<open>try\<close>, so its OverflowError propagates.
\<close>

definition time_split_execute ::
  "externals \<Rightarrow> string \<Rightarrow> 'w runner \<Rightarrow> nat \<Rightarrow> 'w machine
     \<Rightarrow> error + (raw_result option \<times> 'w machine)" where
  "time_split_execute ext timestamp_col runner request m =
     (if \<not> time_can_execute ext timestamp_col (heap m ! request) then Inr (None, m)
      else
        let date_align = date_align_seconds ext;
            step = split_step_config ext;
            query_limit = limit (query (heap m ! request));
            lim = (case query_limit of None \<Rightarrow> 0 | Some l \<Rightarrow> l);
            remaining = offset (query (heap m ! request))
        in case first_literal (get_conditions_or_empty (query (heap m ! request)))
                  timestamp_col ''<'' of
             Inl e \<Rightarrow> Inl e
           | Inr to_date_str \<Rightarrow>
        (case first_literal (get_conditions_or_empty (query (heap m ! request)))
                  timestamp_col ''>='' of
             Inl e \<Rightarrow> Inl e
           | Inr from_date_str \<Rightarrow>
        (case parse_datetime ext to_date_str date_align of
             Inl e \<Rightarrow> Inl e
           | Inr to_date \<Rightarrow>
        (case parse_datetime ext from_date_str date_align of
             Inl e \<Rightarrow> Inl e
           | Inr from_date \<Rightarrow>
        (case minus_seconds to_date step of
             Inl e \<Rightarrow> Inl e
           | Inr d \<Rightarrow>
             let v = \<lparr>overall_result = None, split_start = max d from_date,
                      split_end = to_date, split_step = step, total_results = 0,
                      remaining_offset = remaining\<rparr>;
                 (v, m) = time_split_loop timestamp_col runner request lim from_date v m
             in Inr (overall_result v, m))))))"

section \<open>ColumnSplitQueryStrategy (snuba/web/split.py)\<close>

record column_split_spec =
  id_column :: string
  project_column :: string
  timestamp_column :: string

definition get_min_columns :: "column_split_spec \<Rightarrow> string list" where
  "get_min_columns spec = [id_column spec, project_column spec, timestamp_column spec]"

definition column_can_execute :: "externals \<Rightarrow> column_split_spec \<Rightarrow> request \<Rightarrow> bool" where
  "column_can_execute ext spec req =
     (if \<not> is_query_splittable ext (query req) then False
      else
        let total_col_count = length (get_all_referenced_columns ext (query req));
            copied_query = set_selected_columns (get_min_columns spec) (query req);
            min_col_count = length (get_all_referenced_columns ext copied_query);
            selected_cols = selected_columns (query req)
        in (case selected_cols of None \<Rightarrow> False | Some cols \<Rightarrow> length cols > 0)
           \<and> \<not> truthy (aggregations (query req))
           \<and> total_col_count > min_col_count)"

text \<open>\<^verbatim>\<open>[event[column] for event in rows]\<close>: KeyError at the first row without it.\<close>

fun column_values :: "row list \<Rightarrow> string \<Rightarrow> error + pyval list" where
  "column_values [] column = Inr []"
| "column_values (event # events) column =
     (case map_of event column of
        None \<Rightarrow> Inl KeyError
      | Some x \<Rightarrow>
          (case column_values events column of
             Inl e \<Rightarrow> Inl e
           | Inr xs \<Rightarrow> Inr (x # xs)))"

text \<open>
  \<^verbatim>\<open>list(set(values))\<close>: the distinct values, TypeError when one is a list (lists
  are not hashable). Python leaves the order of the result open; the model keeps the
  order of last occurrence and nothing proved below depends on it.
\<close>

fun is_list :: "pyval \<Rightarrow> bool" where
  "is_list (PList xs) = True"
| "is_list x = False"

definition distinct_values :: "pyval list \<Rightarrow> error + pyval list" where
  "distinct_values xs = (if list_ex is_list xs then Inl TypeError else Inr (remdups xs))"

text \<open>
  \<^verbatim>\<open>min\<close> and \<^verbatim>\<open>max\<close> of the timestamp column: on ISO texts of one format
  they follow the datetimes. Rows whose timestamp is anything else lie outside the
  model and are answered with TypeError; an empty list is a ValueError.
\<close>

fun iso_seconds :: "pyval list \<Rightarrow> error + int list" where
  "iso_seconds [] = Inr []"
| "iso_seconds (PIso t # xs) =
     (case iso_seconds xs of Inl e \<Rightarrow> Inl e | Inr ts \<Rightarrow> Inr (t # ts))"
| "iso_seconds (x # xs) = Inl TypeError"

definition py_min :: "pyval list \<Rightarrow> error + pyval" where
  "py_min xs =
     (case iso_seconds xs of
        Inl e \<Rightarrow> Inl e
      | Inr [] \<Rightarrow> Inl ValueError
      | Inr (t # ts) \<Rightarrow> Inr (PIso (fold min ts t)))"

definition py_max :: "pyval list \<Rightarrow> error + pyval" where
  "py_max xs =
     (case iso_seconds xs of
        Inl e \<Rightarrow> Inl e
      | Inr [] \<Rightarrow> Inl ValueError
      | Inr (t # ts) \<Rightarrow> Inr (PIso (fold max ts t)))"

text \<open>
  \<^verbatim>\<open>ColumnSplitQueryStrategy.execute\<close>. After the first round trip the name
  \<^verbatim>\<open>request\<close> is rebound to a deep copy only when the first result has rows; the
  last line passes whatever \<^verbatim>\<open>request\<close> then names to the runner.
  \<^verbatim>\<open>util.parse_datetime\<close> is called here without an alignment, which is 1.
\<close>

definition column_split_execute ::
  "externals \<Rightarrow> column_split_spec \<Rightarrow> 'w runner \<Rightarrow> nat \<Rightarrow> 'w machine
     \<Rightarrow> error + (raw_result option \<times> 'w machine)" where
  "column_split_execute ext spec runner request m =
     (if \<not> column_can_execute ext spec (heap m ! request) then Inr (None, m)
      else
        let (minimal_request, m) = deepcopy request m;
            m = update_query minimal_request (set_selected_columns (get_min_columns spec)) m;
            (result, m) = call_runner runner minimal_request m
        in if data result \<noteq> [] then
             (let (request, m) = deepcopy request m
             in (case column_values (data result) (id_column spec) of
                  Inl e \<Rightarrow> Inl e
                | Inr ids \<Rightarrow>
             (case distinct_values ids of
                  Inl e \<Rightarrow> Inl e
                | Inr event_ids \<Rightarrow>
             let m = update_query request
                       (add_conditions [Cond (PStr (id_column spec)) ''IN'' (PList event_ids)]) m;
                 m = update_query request (set_offset 0) m;
                 m = update_query request (set_limit (int (length event_ids))) m
             in (case column_values (data result) (project_column spec) of
                  Inl e \<Rightarrow> Inl e
                | Inr projects \<Rightarrow>
             (case distinct_values projects of
                  Inl e \<Rightarrow> Inl e
                | Inr project_ids \<Rightarrow>
             let m = update_query request
                       (replace_condition (project_column spec) ''IN'' (PList project_ids)) m;
                 timestamp_field = timestamp_column spec
             in (case column_values (data result) timestamp_field of
                  Inl e \<Rightarrow> Inl e
                | Inr timestamps \<Rightarrow>
             (case py_min timestamps of
                  Inl e \<Rightarrow> Inl e
                | Inr earliest \<Rightarrow>
             (case parse_datetime ext earliest 1 of
                  Inl e \<Rightarrow> Inl e
                | Inr lower \<Rightarrow>
             let m = update_query request
                       (replace_condition timestamp_field ''>='' (isoformat lower)) m
             in (case py_max timestamps of
                  Inl e \<Rightarrow> Inl e
                | Inr latest \<Rightarrow>
             (case parse_datetime ext latest 1 of
                  Inl e \<Rightarrow> Inl e
                | Inr upper \<Rightarrow>
             (case plus_seconds upper 1 of
                  Inl e \<Rightarrow> Inl e
                | Inr upper1 \<Rightarrow>
             let m = update_query request
                       (replace_condition timestamp_field ''<'' (isoformat upper1)) m;
                 (final, m) = call_runner runner request m
             in Inr (Some final, m))))))))))))
           else
             let (final, m) = call_runner runner request m
             in Inr (Some final, m))"

section \<open>A request, a configuration and stores to run the strategies on\<close>

text \<open>
  The instances the strategies are run on below. \<open>example_parse\<close> reads an ISO text
  back and aligns it; the example query asks for five rows of two columns over the two
  hours before \<open>63000007200\<close>, newest first.
\<close>

definition example_parse :: "pyval \<Rightarrow> int \<Rightarrow> error + int" where
  "example_parse x alignment =
     (case x of PIso t \<Rightarrow> Inr (t - t mod alignment) | _ \<Rightarrow> Inl ValueError)"

definition example_externals :: externals where
  "example_externals =
     \<lparr>use_split = Some 1, date_align_seconds = 1, split_step_config = 3600,
      parse_datetime = example_parse,
      get_all_referenced_columns =
        (\<lambda>q. case selected_columns q of None \<Rightarrow> [] | Some cols \<Rightarrow> remdups (cols @ [''project_id'', ''timestamp'']))\<rparr>"

definition example_query :: query where
  "example_query =
     \<lparr>selected_columns = Some [''event_id'', ''payload''],
      conditions = Some [Cond (PStr ''project_id'') ''IN'' (PList [PInt 1]),
                         Cond (PStr ''timestamp'') ''>='' (PIso 63000000000),
                         Cond (PStr ''timestamp'') ''<'' (PIso 63000007200)],
      groupby = None, aggregations = None,
      orderby = [PStr ''-timestamp''], limit = Some 5, offset = 0\<rparr>"

definition example_request :: request where
  "example_request =
     \<lparr>query = example_query,
      extensions = [(''timeseries'', [(''from_date'', PIso 63000000000), (''to_date'', PIso 63000007200)]),
                    (''project'', [(''project'', PList [PInt 1])])],
      settings = PNone\<rparr>"

section \<open>When the time split applies\<close>

text \<open>
  C7. The precondition of the time split holds exactly when the \<^verbatim>\<open>use_split\<close> flag
  is positive, the query has a positive limit, it has no group-by (none, or an empty
  one), its first order-by key is the timestamp column descending, it has a top-level
  \<open>>=\<close> condition and a top-level \<open><\<close> condition on the timestamp column, and its
  offset is below 1000.
\<close>

theorem time_split_precondition:
  "time_can_execute ext timestamp_col req \<longleftrightarrow>
     (\<exists>u. use_split ext = Some u \<and> 0 < u)
     \<and> (\<exists>l. limit (query req) = Some l \<and> 0 < l)
     \<and> (groupby (query req) = None \<or> groupby (query req) = Some [])
     \<and> (\<exists>rest. orderby (query req) = PStr (''-'' @ timestamp_col) # rest)
     \<and> (\<exists>lit. Cond (PStr timestamp_col) ''>='' lit \<in> set (get_conditions_or_empty (query req)))
     \<and> (\<exists>lit. Cond (PStr timestamp_col) ''<'' lit \<in> set (get_conditions_or_empty (query req)))
     \<and> offset (query req) < 1000"
proof -
  have ident: "\<And>cs opr. list_ex (\<lambda>c. identify_condition c timestamp_col opr) cs
      \<longleftrightarrow> (\<exists>lit. Cond (PStr timestamp_col) opr lit \<in> set cs)"
  proof -
    fix cs :: "condition list" and opr
    have "\<And>c. identify_condition c timestamp_col opr \<longleftrightarrow> (\<exists>lit. c = Cond (PStr timestamp_col) opr lit)"
      by (case_tac c) auto
    then show "list_ex (\<lambda>c. identify_condition c timestamp_col opr) cs
      \<longleftrightarrow> (\<exists>lit. Cond (PStr timestamp_col) opr lit \<in> set cs)"
      by (auto simp: list_ex_iff)
  qed
  have flag: "(0 < (case use_split ext of None \<Rightarrow> 0 | Some u \<Rightarrow> u)) \<longleftrightarrow> (\<exists>u. use_split ext = Some u \<and> 0 < u)"
    by (cases "use_split ext") auto
  have lim: "(0 < (case limit (query req) of None \<Rightarrow> 0 | Some l \<Rightarrow> l)) \<longleftrightarrow> (\<exists>l. limit (query req) = Some l \<and> 0 < l)"
    by (cases "limit (query req)") auto
  have grp: "\<not> truthy (groupby (query req)) \<longleftrightarrow> (groupby (query req) = None \<or> groupby (query req) = Some [])"
    by (cases "groupby (query req)") (auto simp: truthy_def)
  have ord: "take 1 (orderby (query req)) = [PStr (''-'' @ timestamp_col)]
      \<longleftrightarrow> (\<exists>rest. orderby (query req) = PStr (''-'' @ timestamp_col) # rest)"
    by (cases "orderby (query req)") auto
  show ?thesis
    unfolding time_can_execute_def is_query_splittable_def Let_def ident flag lim grp ord
    by blast
qed

theorem time_split_precondition_witness:
  "time_can_execute example_externals ''timestamp'' example_request
   \<and> \<not> time_can_execute example_externals ''timestamp''
         (example_request\<lparr>query := example_query\<lparr>offset := 1000\<rparr>\<rparr>)"
  using time_split_precondition [of example_externals "''timestamp''" example_request]
    time_split_precondition [of example_externals "''timestamp''"
       "example_request\<lparr>query := example_query\<lparr>offset := 1000\<rparr>\<rparr>"]
  by (simp add: example_externals_def example_request_def example_query_def
        get_conditions_or_empty_def)

text \<open>
  The caller's request is the only object of a fresh machine, at address 0.
\<close>

definition initial_machine :: "request \<Rightarrow> 'w \<Rightarrow> 'w machine" where
  "initial_machine req w = \<lparr>heap = [req], world = w, calls = []\<rparr>"

definition example_spec :: column_split_spec where
  "example_spec = \<lparr>id_column = ''event_id'', project_column = ''project_id'',
                    timestamp_column = ''timestamp''\<rparr>"

section \<open>The column split when the first phase finds nothing\<close>

text \<open>The contents of the first-phase request: the original with the minimal projection.\<close>

definition minimal_request :: "column_split_spec \<Rightarrow> request \<Rightarrow> request" where
  "minimal_request spec req =
     req\<lparr>query := set_selected_columns (get_min_columns spec) (query req)\<rparr>"

text \<open>A store that finds no rows and stamps each answer with the number of the call.\<close>

definition counting_runner :: "nat runner" where
  "counting_runner req n = ((\<lparr>data = [], meta = PInt (int n + 1)\<rparr>, req), n + 1)"

lemma column_split_first_phase:
  "(case deepcopy request m of (minimal, m1) \<Rightarrow>
      call_runner runner minimal
        (update_query minimal (set_selected_columns (get_min_columns spec)) m1))
   = (case runner (minimal_request spec (heap m ! request)) (world m) of
        ((result, left), w) \<Rightarrow>
          (result, m\<lparr>heap := heap m @ [left], world := w,
                      calls := calls m @ [(length (heap m), minimal_request spec (heap m ! request))]\<rparr>))"
  by (simp add: deepcopy_def update_query_def call_runner_def minimal_request_def Let_def
        case_prod_beta)

lemma column_split_empty_run:
  assumes pre: "column_can_execute ext spec (heap m ! request)"
    and alloc: "request < length (heap m)"
    and first: "runner (minimal_request spec (heap m ! request)) (world m) = ((r1, left1), w1)"
    and empty: "data r1 = []"
    and second: "runner (heap m ! request) w1 = ((r2, left2), w2)"
  shows "column_split_execute ext spec runner request m =
           Inr (Some r2,
                m\<lparr>heap := (heap m @ [left1])[request := left2], world := w2,
                   calls := calls m @ [(length (heap m), minimal_request spec (heap m ! request)),
                                       (request, heap m ! request)]\<rparr>)"
proof -
  have one: "(case deepcopy request m of (minimal, m1) \<Rightarrow>
      call_runner runner minimal
        (update_query minimal (set_selected_columns (get_min_columns spec)) m1))
     = (r1, m\<lparr>heap := heap m @ [left1], world := w1,
               calls := calls m @ [(length (heap m), minimal_request spec (heap m ! request))]\<rparr>)"
    by (simp add: column_split_first_phase first)
  have two: "call_runner runner request
       (m\<lparr>heap := heap m @ [left1], world := w1,
          calls := calls m @ [(length (heap m), minimal_request spec (heap m ! request))]\<rparr>)
     = (r2, m\<lparr>heap := (heap m @ [left1])[request := left2], world := w2,
                calls := calls m @ [(length (heap m), minimal_request spec (heap m ! request)),
                                    (request, heap m ! request)]\<rparr>)"
    using alloc second by (simp add: call_runner_def nth_append)
  show ?thesis
    using pre one two empty
    by (simp add: column_split_execute_def Let_def case_prod_beta split: prod.splits)
qed


text \<open>
  C2, as the code has it. When the precondition holds and the first-phase call
  returns no rows, \<^verbatim>\<open>execute\<close> makes exactly two runner calls: the first on a deep
  copy carrying the minimal projection, the second on the original request object with
  its contents as the caller passed them; it returns the result of the second call.
\<close>

theorem column_split_empty_first_phase:
  assumes pre: "column_can_execute ext spec (heap m ! request)"
    and alloc: "request < length (heap m)"
    and first: "runner (minimal_request spec (heap m ! request)) (world m) = ((r1, left1), w1)"
    and empty: "data r1 = []"
    and second: "runner (heap m ! request) w1 = ((r2, left2), w2)"
  shows "column_split_execute ext spec runner request m =
           Inr (Some r2,
                m\<lparr>heap := (heap m @ [left1])[request := left2], world := w2,
                   calls := calls m @ [(length (heap m), minimal_request spec (heap m ! request)),
                                       (request, heap m ! request)]\<rparr>)"
  using pre alloc first empty second by (rule column_split_empty_run)

text \<open>
  The claim as stated fails: on the example request, with a store that never finds a
  row, the runner is called twice and the answer returned is the one stamped 2.
\<close>

theorem column_split_empty_first_phase_counterexample:
  "column_split_execute example_externals example_spec counting_runner 0
     (initial_machine example_request 0)
   = Inr (Some \<lparr>data = [], meta = PInt 2\<rparr>,
          \<lparr>heap = [example_request, minimal_request example_spec example_request],
           world = 2,
           calls = [(1, minimal_request example_spec example_request), (0, example_request)]\<rparr>)"
  by (simp add: column_split_execute_def column_can_execute_def is_query_splittable_def
        example_externals_def example_spec_def example_request_def example_query_def
        initial_machine_def counting_runner_def minimal_request_def get_min_columns_def
        set_selected_columns_def truthy_def deepcopy_def update_query_def call_runner_def
        Let_def)

theorem column_split_empty_first_phase_witness:
  "column_split_execute example_externals example_spec counting_runner 0
     (initial_machine example_request 5)
   = Inr (Some \<lparr>data = [], meta = PInt 7\<rparr>,
          \<lparr>heap = [example_request, minimal_request example_spec example_request],
           world = 7,
           calls = [(1, minimal_request example_spec example_request), (0, example_request)]\<rparr>)"
  using column_split_empty_first_phase [of example_externals example_spec
      "initial_machine example_request 5" 0 counting_runner
      "\<lparr>data = [], meta = PInt 6\<rparr>" "minimal_request example_spec example_request" 6
      "\<lparr>data = [], meta = PInt 7\<rparr>" example_request 7]
  by (simp add: column_can_execute_def is_query_splittable_def
        example_externals_def example_spec_def example_request_def example_query_def
        initial_machine_def counting_runner_def minimal_request_def get_min_columns_def
        set_selected_columns_def truthy_def)

section \<open>What one pass and the whole loop do to the machine\<close>

lemma iteration_step:
  assumes "runner (sub_request ts lim v (heap m ! request)) (world m) = ((result, left), w)"
  shows "time_split_iteration ts runner request lim from_date v m =
           (advance lim from_date v result,
            m\<lparr>heap := heap m @ [left], world := w,
               calls := calls m @ [(length (heap m), sub_request ts lim v (heap m ! request))]\<rparr>)"
  using assms by (simp add: iteration_eq call_runner_def)

declare time_split_loop.simps [simp del]

lemma loop_continue:
  "split_start v < split_end v \<Longrightarrow> total_results v < lim \<Longrightarrow>
   time_split_loop ts runner request lim from_date v m =
     time_split_loop ts runner request lim from_date
       (fst (time_split_iteration ts runner request lim from_date v m))
       (snd (time_split_iteration ts runner request lim from_date v m))"
  by (subst time_split_loop.simps) (simp add: case_prod_beta)

lemma loop_stop:
  "\<not> (split_start v < split_end v \<and> total_results v < lim) \<Longrightarrow>
   time_split_loop ts runner request lim from_date v m = (v, m)"
  by (subst time_split_loop.simps) auto

text \<open>
  \<open>grows m m'\<close>: from \<open>m\<close> to \<open>m'\<close> objects were only added, the objects of \<open>m\<close> kept
  their contents, and every runner call made in between was on an object added since.
\<close>

definition grows :: "'w machine \<Rightarrow> 'w machine \<Rightarrow> bool" where
  "grows m m' \<longleftrightarrow>
     (\<exists>copies issued. heap m' = heap m @ copies \<and> calls m' = calls m @ issued
        \<and> list_all (\<lambda>c. length (heap m) \<le> fst c) issued)"

lemma grows_refl: "grows m m"
  by (simp add: grows_def)

lemma grows_trans:
  assumes "grows m m1" and "grows m1 m2"
  shows "grows m m2"
proof -
  from assms(1) obtain h1 c1 where 1: "heap m1 = heap m @ h1" "calls m1 = calls m @ c1"
    "list_all (\<lambda>c. length (heap m) \<le> fst c) c1"
    unfolding grows_def by blast
  from assms(2) obtain h2 c2 where 2: "heap m2 = heap m1 @ h2" "calls m2 = calls m1 @ c2"
    "list_all (\<lambda>c. length (heap m1) \<le> fst c) c2"
    unfolding grows_def by blast
  from 1(1) 2(3) have "list_all (\<lambda>c. length (heap m) \<le> fst c) c2"
    by (auto simp add: list_all_iff)
  with 1 2 have "heap m2 = heap m @ (h1 @ h2) \<and> calls m2 = calls m @ (c1 @ c2)
     \<and> list_all (\<lambda>c. length (heap m) \<le> fst c) (c1 @ c2)"
    by simp
  then show ?thesis
    unfolding grows_def by blast
qed

lemma iteration_grows:
  "grows m (snd (time_split_iteration ts runner request lim from_date v m))"
proof -
  obtain result left w where
    r: "runner (sub_request ts lim v (heap m ! request)) (world m) = ((result, left), w)"
    by (metis prod.exhaust)
  show ?thesis
    by (simp add: iteration_step [where runner = runner, OF r] grows_def)
qed

lemma loop_grows:
  "grows m (snd (time_split_loop ts runner request lim from_date v m))"
proof (induction ts runner request lim from_date v m rule: time_split_loop.induct)
  case (1 ts runner request lim from_date v m)
  show ?case
  proof (cases "split_start v < split_end v \<and> total_results v < lim")
    case True
    let ?it = "time_split_iteration ts runner request lim from_date v m"
    have "grows (snd ?it) (snd (time_split_loop ts runner request lim from_date (fst ?it) (snd ?it)))"
      using "1.IH" [OF True, of "fst ?it" "snd ?it"] by simp
    with iteration_grows [of m ts runner request lim from_date v]
    have "grows m (snd (time_split_loop ts runner request lim from_date (fst ?it) (snd ?it)))"
      by (rule grows_trans)
    with True show ?thesis
      by (simp add: loop_continue)
  next
    case False
    then show ?thesis
      by (simp add: loop_stop grows_refl)
  qed
qed


lemma grows_deepcopy:
  assumes "grows m0 m"
  shows "grows m0 (snd (deepcopy a m))" and "length (heap m0) \<le> fst (deepcopy a m)"
proof -
  from assms obtain h c where 1: "heap m = heap m0 @ h" "calls m = calls m0 @ c"
    "list_all (\<lambda>c. length (heap m0) \<le> fst c) c"
    unfolding grows_def by blast
  then have "heap (snd (deepcopy a m)) = heap m0 @ (h @ [heap m ! a])
      \<and> calls (snd (deepcopy a m)) = calls m0 @ c"
    by (simp add: deepcopy_def)
  with 1(3) show "grows m0 (snd (deepcopy a m))"
    unfolding grows_def by blast
  from 1(1) show "length (heap m0) \<le> fst (deepcopy a m)"
    by (simp add: deepcopy_def)
qed

lemma grows_update_query:
  assumes "grows m0 m" and "length (heap m0) \<le> a"
  shows "grows m0 (update_query a f m)"
proof -
  from assms obtain h c where 1: "heap m = heap m0 @ h" "calls m = calls m0 @ c"
    "list_all (\<lambda>c. length (heap m0) \<le> fst c) c"
    unfolding grows_def by blast
  let ?x = "(heap m ! a)\<lparr>query := f (query (heap m ! a))\<rparr>"
  from 1(1) assms(2) have "heap (update_query a f m) = heap m0 @ h[a - length (heap m0) := ?x]"
    by (simp add: update_query_def list_update_append)
  moreover from 1(2) have "calls (update_query a f m) = calls m0 @ c"
    by (simp add: update_query_def)
  ultimately show ?thesis
    using 1(3) unfolding grows_def by blast
qed

lemma grows_call_runner:
  assumes "grows m0 m" and "length (heap m0) \<le> a"
  shows "grows m0 (snd (call_runner runner a m))"
proof -
  from assms obtain h c where 1: "heap m = heap m0 @ h" "calls m = calls m0 @ c"
    "list_all (\<lambda>c. length (heap m0) \<le> fst c) c"
    unfolding grows_def by blast
  let ?left = "snd (fst (runner (heap m ! a) (world m)))"
  from 1(1) assms(2) have "heap (snd (call_runner runner a m)) = heap m0 @ h[a - length (heap m0) := ?left]"
    by (simp add: call_runner_def case_prod_beta list_update_append)
  moreover from 1(2) have "calls (snd (call_runner runner a m)) = calls m0 @ (c @ [(a, heap m ! a)])"
    by (simp add: call_runner_def case_prod_beta)
  moreover from 1(3) assms(2) have "list_all (\<lambda>c. length (heap m0) \<le> fst c) (c @ [(a, heap m ! a)])"
    by simp
  ultimately show ?thesis
    unfolding grows_def by blast
qed

lemma grows_original:
  assumes "grows m m'" and "request < length (heap m)"
  shows "heap m' ! request = heap m ! request"
    and "list_all (\<lambda>c. fst c \<noteq> request) (drop (length (calls m)) (calls m'))"
proof -
  from assms(1) obtain h c where 1: "heap m' = heap m @ h" "calls m' = calls m @ c"
    "list_all (\<lambda>c. length (heap m) \<le> fst c) c"
    unfolding grows_def by blast
  from 1(1) assms(2) show "heap m' ! request = heap m ! request"
    by (simp add: nth_append)
  from 1(2,3) assms(2) show "list_all (\<lambda>c. fst c \<noteq> request) (drop (length (calls m)) (calls m'))"
    by (auto simp: list_all_iff)
qed

section \<open>The two split strategies and the caller's request object\<close>

lemma time_split_execute_grows:
  assumes "time_split_execute ext ts runner request m = Inr (res, m')"
  shows "grows m m'"
proof (cases "time_can_execute ext ts (heap m ! request)")
  case False
  with assms show ?thesis
    by (simp add: time_split_execute_def grows_refl)
next
  case True
  with assms obtain lim from_date v where
    "m' = snd (time_split_loop ts runner request lim from_date v m)"
    by (auto simp: time_split_execute_def Let_def case_prod_beta split: sum.splits)
  then show ?thesis
    by (simp add: loop_grows)
qed

text \<open>The contents of the second-phase request of the column split.\<close>

definition second_request ::
  "column_split_spec \<Rightarrow> pyval list \<Rightarrow> pyval list \<Rightarrow> int \<Rightarrow> int \<Rightarrow> request \<Rightarrow> request" where
  "second_request spec event_ids project_ids lower upper1 req =
     req\<lparr>query :=
       replace_condition (timestamp_column spec) ''<'' (isoformat upper1)
         (replace_condition (timestamp_column spec) ''>='' (isoformat lower)
           (replace_condition (project_column spec) ''IN'' (PList project_ids)
             (set_limit (int (length event_ids))
               (set_offset 0
                 (add_conditions [Cond (PStr (id_column spec)) ''IN'' (PList event_ids)]
                   (query req))))))\<rparr>"

lemma column_split_second_phase:
  "(case deepcopy request m of (second, m1) \<Rightarrow>
      call_runner runner second
        (update_query second (replace_condition (timestamp_column spec) ''<'' (isoformat upper1))
          (update_query second (replace_condition (timestamp_column spec) ''>='' (isoformat lower))
            (update_query second (replace_condition (project_column spec) ''IN'' (PList project_ids))
              (update_query second (set_limit (int (length event_ids)))
                (update_query second (set_offset 0)
                  (update_query second
                    (add_conditions [Cond (PStr (id_column spec)) ''IN'' (PList event_ids)]) m1)))))))
   = (case runner (second_request spec event_ids project_ids lower upper1 (heap m ! request)) (world m) of
        ((result, left), w) \<Rightarrow>
          (result, m\<lparr>heap := heap m @ [left], world := w,
                      calls := calls m @ [(length (heap m),
                         second_request spec event_ids project_ids lower upper1 (heap m ! request))]\<rparr>))"
  by (simp add: deepcopy_def update_query_def call_runner_def second_request_def Let_def
        case_prod_beta)


lemma deepcopy_fst: "fst (deepcopy a m) = length (heap m)"
  by (simp add: deepcopy_def)

lemma column_split_grows:
  assumes ex: "column_split_execute ext spec runner request m = Inr (res, m')"
    and first: "data (fst (fst (runner (minimal_request spec (heap m ! request)) (world m)))) \<noteq> []"
  shows "grows m m'"
proof (cases "column_can_execute ext spec (heap m ! request)")
  case False
  with ex show ?thesis
    by (simp add: column_split_execute_def grows_refl)
next
  case True
  define m1 where "m1 = snd (deepcopy request m)"
  define m2 where "m2 = update_query (length (heap m)) (set_selected_columns (get_min_columns spec)) m1"
  define m3 where "m3 = snd (call_runner runner (length (heap m)) m2)"
  define r1 where "r1 = fst (call_runner runner (length (heap m)) m2)"
  define m4 where "m4 = snd (deepcopy request m3)"
  define a where "a = fst (deepcopy request m3)"
  have g1: "grows m m1"
    unfolding m1_def by (rule grows_deepcopy(1) [OF grows_refl])
  have g2: "grows m m2"
    unfolding m2_def by (rule grows_update_query [OF g1]) simp
  have g3: "grows m m3"
    unfolding m3_def by (rule grows_call_runner [OF g2]) simp
  have g4: "grows m m4"
    unfolding m4_def by (rule grows_deepcopy(1) [OF g3])
  have la: "length (heap m) \<le> a"
    unfolding a_def by (rule grows_deepcopy(2) [OF g3])
  have r1: "data r1 \<noteq> []"
    using first
    by (simp add: r1_def m2_def m1_def call_runner_def deepcopy_def update_query_def
          minimal_request_def case_prod_beta)
  from ex True r1 obtain f1 f2 f3 f4 f5 f6 where
    "m' = snd (call_runner runner a
       (update_query a f6 (update_query a f5 (update_query a f4
          (update_query a f3 (update_query a f2 (update_query a f1 m4)))))))"
    by (auto simp: column_split_execute_def Let_def case_prod_beta deepcopy_fst
          r1_def m1_def m2_def m3_def m4_def a_def split: sum.splits)
  then show ?thesis
    using g4 la by (simp add: grows_call_runner grows_update_query)
qed

section \<open>A store that answers sub-queries\<close>

text \<open>
  The runner of the row-set claim: a store holding a fixed list of rows, newest first,
  that answers a request with the rows inside every top-level timestamp bound of the
  request, after the request's offset and up to its limit. It leaves the request as
  it found it. \<open>time_of\<close> gives the timestamp of a stored row.
\<close>

fun bound_holds :: "string \<Rightarrow> int \<Rightarrow> condition \<Rightarrow> bool" where
  "bound_holds ts t (Cond f opr lit) =
     (if f = PStr ts \<and> opr = ''>='' then (case lit of PIso s \<Rightarrow> s \<le> t | _ \<Rightarrow> True)
      else if f = PStr ts \<and> opr = ''<'' then (case lit of PIso e \<Rightarrow> t < e | _ \<Rightarrow> True)
      else True)"
| "bound_holds ts t (OrGroup alts) = True"

definition store_rows :: "string \<Rightarrow> (row \<Rightarrow> int) \<Rightarrow> row list \<Rightarrow> request \<Rightarrow> row list" where
  "store_rows ts time_of rows req =
     (let matching = filter (\<lambda>r. list_all (bound_holds ts (time_of r))
                                  (get_conditions_or_empty (query req))) rows;
          skipped = drop (nat (offset (query req))) matching
      in case limit (query req) of None \<Rightarrow> skipped | Some l \<Rightarrow> take (nat l) skipped)"

definition store_runner :: "string \<Rightarrow> (row \<Rightarrow> int) \<Rightarrow> row list \<Rightarrow> 'w runner" where
  "store_runner ts time_of rows req w =
     ((\<lparr>data = store_rows ts time_of rows req, meta = PNone\<rparr>, req), w)"

definition example_time :: "row \<Rightarrow> int" where
  "example_time r = (case map_of r ''timestamp'' of Some (PIso t) \<Rightarrow> t | _ \<Rightarrow> 0)"

definition example_row :: "int \<Rightarrow> int \<Rightarrow> row" where
  "example_row n t =
     [(''event_id'', PInt n), (''project_id'', PInt 1), (''timestamp'', PIso t),
      (''payload'', PStr ''x'')]"

definition example_rows :: "row list" where
  "example_rows =
     [example_row 1 63000007000, example_row 2 63000005000, example_row 3 63000003000,
      example_row 4 63000003000, example_row 5 63000000100]"




text \<open>Equations for running the strategies on an explicit machine.\<close>

lemma update_query_eval:
  "update_query a f \<lparr>heap = h, world = w, calls = c\<rparr> =
     \<lparr>heap = h[a := (h ! a)\<lparr>query := f (query (h ! a))\<rparr>], world = w, calls = c\<rparr>"
  by (simp add: update_query_def)

lemma deepcopy_eval:
  "deepcopy a \<lparr>heap = h, world = w, calls = c\<rparr> =
     (length h, \<lparr>heap = h @ [h ! a], world = w, calls = c\<rparr>)"
  by (simp add: deepcopy_def)

lemma call_runner_eval:
  "call_runner runner a \<lparr>heap = h, world = w, calls = c\<rparr> =
     (fst (fst (runner (h ! a) w)),
      \<lparr>heap = h[a := snd (fst (runner (h ! a) w))], world = snd (runner (h ! a) w),
       calls = c @ [(a, h ! a)]\<rparr>)"
  by (simp add: call_runner_def case_prod_beta)

lemmas run_simps =
  time_split_execute_def time_can_execute_def is_query_splittable_def
  initial_machine_def truthy_def get_conditions_or_empty_def minus_seconds_def plus_seconds_def
  timedelta_seconds_def datetime_sub_def datetime_add_def DATETIME_MAX_def
  loop_continue loop_stop time_split_iteration_def deepcopy_eval update_query_eval
  call_runner_eval replace_condition_def set_conditions_def set_offset_def set_limit_def
  add_conditions_def set_selected_columns_def
  isoformat_def extend_overall_def trim_offset_def next_window_def STEP_GROWTH_def
  ceil_div_def

lemmas example_simps =
  example_externals_def example_request_def example_query_def example_parse_def
  store_runner_def store_rows_def example_rows_def example_row_def example_time_def

lemmas column_run_simps =
  column_split_execute_def column_can_execute_def is_query_splittable_def
  initial_machine_def truthy_def get_conditions_or_empty_def plus_seconds_def
  timedelta_seconds_def datetime_add_def DATETIME_MAX_def get_min_columns_def
  deepcopy_eval update_query_eval call_runner_eval replace_condition_def set_conditions_def
  set_offset_def set_limit_def add_conditions_def set_selected_columns_def isoformat_def
  distinct_values_def py_min_def py_max_def minimal_request_def Let_def

text \<open>A runner that finds nothing and overwrites the limit of the request it is given.\<close>

definition clobbering_runner :: "unit runner" where
  "clobbering_runner req w = ((\<lparr>data = [], meta = PNone\<rparr>, req\<lparr>query := set_limit 0 (query req)\<rparr>), w)"

text \<open>
  C3, as the code has it. The time split makes every runner call on a deep copy and
  leaves the caller's request object as it was. So does the column split when its
  first phase returns rows. When the first phase returns no rows, the column split
  makes its last call on the caller's request object itself, which afterwards holds
  whatever that call left in it.
\<close>

theorem split_strategies_original_request:
  assumes alloc: "request < length (heap m)"
  shows "(\<forall>res m'. time_split_execute ext ts runner request m = Inr (res, m') \<longrightarrow>
            heap m' ! request = heap m ! request
            \<and> list_all (\<lambda>c. fst c \<noteq> request) (drop (length (calls m)) (calls m')))
       \<and> (\<forall>res m'. column_split_execute ext spec runner request m = Inr (res, m')
            \<and> data (fst (fst (runner (minimal_request spec (heap m ! request)) (world m)))) \<noteq> [] \<longrightarrow>
            heap m' ! request = heap m ! request
            \<and> list_all (\<lambda>c. fst c \<noteq> request) (drop (length (calls m)) (calls m')))
       \<and> (\<forall>r1 left1 w1 r2 left2 w2.
            column_can_execute ext spec (heap m ! request)
            \<and> runner (minimal_request spec (heap m ! request)) (world m) = ((r1, left1), w1)
            \<and> data r1 = []
            \<and> runner (heap m ! request) w1 = ((r2, left2), w2) \<longrightarrow>
            (\<exists>m'. column_split_execute ext spec runner request m = Inr (Some r2, m')
               \<and> last (calls m') = (request, heap m ! request)
               \<and> heap m' ! request = left2))"
proof (intro conjI allI impI)
  fix res m'
  assume "time_split_execute ext ts runner request m = Inr (res, m')"
  then have g: "grows m m'"
    by (rule time_split_execute_grows)
  from grows_original [OF g alloc]
  show "heap m' ! request = heap m ! request"
    and "list_all (\<lambda>c. fst c \<noteq> request) (drop (length (calls m)) (calls m'))"
    by simp_all
next
  fix res m'
  assume "column_split_execute ext spec runner request m = Inr (res, m')
     \<and> data (fst (fst (runner (minimal_request spec (heap m ! request)) (world m)))) \<noteq> []"
  then have g: "grows m m'"
    using column_split_grows by blast
  from grows_original [OF g alloc]
  show "heap m' ! request = heap m ! request"
    and "list_all (\<lambda>c. fst c \<noteq> request) (drop (length (calls m)) (calls m'))"
    by simp_all
next
  fix r1 left1 w1 r2 left2 w2
  assume a: "column_can_execute ext spec (heap m ! request)
     \<and> runner (minimal_request spec (heap m ! request)) (world m) = ((r1, left1), w1)
     \<and> data r1 = []
     \<and> runner (heap m ! request) w1 = ((r2, left2), w2)"
  then have c1: "column_can_execute ext spec (heap m ! request)"
    and c2: "runner (minimal_request spec (heap m ! request)) (world m) = ((r1, left1), w1)"
    and c3: "data r1 = []"
    and c4: "runner (heap m ! request) w1 = ((r2, left2), w2)"
    by simp_all
  have "column_split_execute ext spec runner request m =
           Inr (Some r2,
                m\<lparr>heap := (heap m @ [left1])[request := left2], world := w2,
                   calls := calls m @ [(length (heap m), minimal_request spec (heap m ! request)),
                                       (request, heap m ! request)]\<rparr>)"
    by (rule column_split_empty_run [OF c1 alloc c2 c3 c4])
  with alloc show "\<exists>m'. column_split_execute ext spec runner request m = Inr (Some r2, m')
               \<and> last (calls m') = (request, heap m ! request)
               \<and> heap m' ! request = left2"
    by simp
qed

text \<open>
  The claim as stated fails: the column split run on the example request with a store
  that finds nothing calls the runner on object 0, the caller's request, and the
  runner's change of the limit is left in it.
\<close>

theorem split_strategies_original_request_counterexample:
  "column_split_execute example_externals example_spec clobbering_runner 0
     (initial_machine example_request ())
   = Inr (Some \<lparr>data = [], meta = PNone\<rparr>,
          \<lparr>heap = [example_request\<lparr>query := example_query\<lparr>limit := Some 0\<rparr>\<rparr>,
                   (minimal_request example_spec example_request)
                     \<lparr>query := (query (minimal_request example_spec example_request))\<lparr>limit := Some 0\<rparr>\<rparr>],
           world = (),
           calls = [(1, minimal_request example_spec example_request), (0, example_request)]\<rparr>)
   \<and> example_request\<lparr>query := example_query\<lparr>limit := Some 0\<rparr>\<rparr> \<noteq> example_request"
  by (simp add: column_run_simps example_simps example_spec_def clobbering_runner_def)


lemma Inr_projr: "\<not> isl x \<Longrightarrow> x = Inr (fst (projr x), snd (projr x))"
  by (cases x) simp_all

theorem split_strategies_original_request_witness:
  "heap (snd (projr (time_split_execute example_externals ''timestamp'' clobbering_runner 0
       (initial_machine example_request ())))) ! 0 = example_request
   \<and> heap (snd (projr (column_split_execute example_externals example_spec
       (store_runner ''timestamp'' example_time example_rows) 0
       (initial_machine example_request ())))) ! 0 = example_request
   \<and> heap (snd (projr (column_split_execute example_externals example_spec clobbering_runner 0
       (initial_machine example_request ())))) ! 0
       = example_request\<lparr>query := example_query\<lparr>limit := Some 0\<rparr>\<rparr>"
proof -
  let ?m = "initial_machine example_request ()"
  let ?store = "store_runner ''timestamp'' example_time example_rows :: unit runner"
  let ?t = "time_split_execute example_externals ''timestamp'' clobbering_runner 0 ?m"
  let ?c = "column_split_execute example_externals example_spec ?store 0 ?m"
  let ?e = "column_split_execute example_externals example_spec clobbering_runner 0 ?m"
  have alloc: "0 < length (heap ?m)"
    by (simp add: initial_machine_def)
  have orig: "heap ?m ! 0 = example_request"
    by (simp add: initial_machine_def)
  note clobber = split_strategies_original_request [OF alloc, where ext = example_externals
      and ts = "''timestamp''" and runner = clobbering_runner and spec = example_spec]
  note store = split_strategies_original_request [OF alloc, where ext = example_externals
      and ts = "''timestamp''" and runner = ?store and spec = example_spec]
  have "\<not> isl ?t"
    by (simp add: run_simps example_simps clobbering_runner_def)
  then have "?t = Inr (fst (projr ?t), snd (projr ?t))"
    by (rule Inr_projr)
  with clobber have 1: "heap (snd (projr ?t)) ! 0 = heap ?m ! 0"
    by blast
  have "\<not> isl ?c"
    by (simp add: column_run_simps example_simps example_spec_def)
  then have "?c = Inr (fst (projr ?c), snd (projr ?c))"
    by (rule Inr_projr)
  moreover have "data (fst (fst (?store (minimal_request example_spec (heap ?m ! 0)) (world ?m)))) \<noteq> []"
    by (simp add: column_run_simps example_simps example_spec_def)
  ultimately have 2: "heap (snd (projr ?c)) ! 0 = heap ?m ! 0"
    using store by blast
  have "column_can_execute example_externals example_spec (heap ?m ! 0)
     \<and> clobbering_runner (minimal_request example_spec (heap ?m ! 0)) (world ?m)
         = ((\<lparr>data = [], meta = PNone\<rparr>,
             (minimal_request example_spec (heap ?m ! 0))
               \<lparr>query := set_limit 0 (query (minimal_request example_spec (heap ?m ! 0)))\<rparr>), ())
     \<and> data \<lparr>data = [], meta = PNone\<rparr> = []
     \<and> clobbering_runner (heap ?m ! 0) ()
         = ((\<lparr>data = [], meta = PNone\<rparr>, example_request\<lparr>query := example_query\<lparr>limit := Some 0\<rparr>\<rparr>), ())"
    by (simp add: column_run_simps example_simps example_spec_def clobbering_runner_def)
  with clobber have "\<exists>m'. ?e = Inr (Some \<lparr>data = [], meta = PNone\<rparr>, m')
      \<and> heap m' ! 0 = example_request\<lparr>query := example_query\<lparr>limit := Some 0\<rparr>\<rparr>"
    by blast
  then have 3: "heap (snd (projr ?e)) ! 0 = example_request\<lparr>query := example_query\<lparr>limit := Some 0\<rparr>\<rparr>"
    by auto
  from 1 2 3 orig show ?thesis
    by simp
qed

section \<open>The sub-request of one pass of the time split\<close>

text \<open>The rows the loop holds, and the rewrite of one condition to a window.\<close>

definition collected :: "split_vars \<Rightarrow> row list" where
  "collected v = (case overall_result v of None \<Rightarrow> [] | Some r \<Rightarrow> data r)"

definition to_window :: "string \<Rightarrow> int \<Rightarrow> int \<Rightarrow> condition \<Rightarrow> condition" where
  "to_window ts lower upper c =
     (if identify_condition c ts ''>='' then Cond (PStr ts) ''>='' (isoformat lower)
      else if identify_condition c ts ''<'' then Cond (PStr ts) ''<'' (isoformat upper)
      else c)"

lemma replace_condition_conditions:
  "get_conditions_or_empty (replace_condition field operand lit q) =
     map (\<lambda>c. if identify_condition c field operand then Cond (PStr field) operand lit else c)
       (get_conditions_or_empty q)"
  by (simp add: replace_condition_def set_conditions_def get_conditions_or_empty_def)

lemma replace_condition_rest:
  "(replace_condition field operand lit q)\<lparr>conditions := x\<rparr> = q\<lparr>conditions := x\<rparr>"
  by (simp add: replace_condition_def set_conditions_def)

lemma to_window_twice:
  "(if identify_condition
        (if identify_condition c ts ''>='' then Cond (PStr ts) ''>='' x else c) ts ''<''
    then Cond (PStr ts) ''<'' y
    else (if identify_condition c ts ''>='' then Cond (PStr ts) ''>='' x else c))
   = (if identify_condition c ts ''>='' then Cond (PStr ts) ''>='' x
      else if identify_condition c ts ''<'' then Cond (PStr ts) ''<'' y else c)"
  by (cases c) simp_all

lemma sub_request_conditions:
  "get_conditions_or_empty (query (sub_request ts lim v req)) =
     map (to_window ts (split_start v) (split_end v)) (get_conditions_or_empty (query req))"
proof -
  have "get_conditions_or_empty (query (sub_request ts lim v req)) =
      get_conditions_or_empty
        (replace_condition ts ''<'' (isoformat (split_end v))
          (replace_condition ts ''>='' (isoformat (split_start v)) (query req)))"
    by (simp add: sub_request_def set_limit_def set_offset_def get_conditions_or_empty_def)
  also have "\<dots> = map (to_window ts (split_start v) (split_end v)) (get_conditions_or_empty (query req))"
    unfolding replace_condition_conditions map_map o_def to_window_twice to_window_def ..
  finally show ?thesis .
qed

lemma sub_request_rest:
  "(sub_request ts lim v req)\<lparr>query := query req\<rparr> = req"
  "(query (sub_request ts lim v req))
      \<lparr>conditions := conditions (query req), limit := limit (query req),
       offset := offset (query req)\<rparr> = query req"
  "offset (query (sub_request ts lim v req)) = 0"
  "limit (query (sub_request ts lim v req)) = Some (lim - total_results v + remaining_offset v)"
  "extensions (sub_request ts lim v req) = extensions req"
  by (simp_all add: sub_request_def set_limit_def set_offset_def replace_condition_def
        set_conditions_def)

lemma advance_collected:
  "total_results (advance lim from_date v result) = int (length (collected (advance lim from_date v result)))"
  by (simp add: advance_def Let_def collected_def next_window_simps)


text \<open>
  C8. In every pass of the loop (any values \<open>v\<close> of the loop variables whose counter
  \<open>total_results\<close> is the number of rows held, which is so at the start and after every
  pass) the runner is called once, on a fresh deep copy of the original request. The
  copy differs from the original only in the conditions, the offset and the limit of
  its query: every top-level \<open>>=\<close> condition on the timestamp column carries
  \<open>split_start\<close>, every top-level \<open><\<close> condition on it carries \<open>split_end\<close>, the other
  conditions are the original's; the offset is 0; the limit is the original limit minus
  the rows collected so far, plus the offset still to skip.
\<close>

theorem time_split_sub_request:
  assumes alloc: "request < length (heap m)"
    and held: "total_results v = int (length (collected v))"
  shows "\<exists>sub left.
      calls (snd (time_split_iteration ts runner request lim from_date v m))
        = calls m @ [(length (heap m), sub)]
    \<and> heap (snd (time_split_iteration ts runner request lim from_date v m)) = heap m @ [left]
    \<and> length (heap m) \<noteq> request
    \<and> sub\<lparr>query := query (heap m ! request)\<rparr> = heap m ! request
    \<and> (query sub)\<lparr>conditions := conditions (query (heap m ! request)),
                    limit := limit (query (heap m ! request)),
                    offset := offset (query (heap m ! request))\<rparr> = query (heap m ! request)
    \<and> get_conditions_or_empty (query sub)
        = map (to_window ts (split_start v) (split_end v))
            (get_conditions_or_empty (query (heap m ! request)))
    \<and> offset (query sub) = 0
    \<and> limit (query sub) = Some ((lim - int (length (collected v))) + remaining_offset v)
    \<and> total_results (fst (time_split_iteration ts runner request lim from_date v m))
        = int (length (collected (fst (time_split_iteration ts runner request lim from_date v m))))"
proof -
  let ?sub = "sub_request ts lim v (heap m ! request)"
  obtain result left w where r: "runner ?sub (world m) = ((result, left), w)"
    by (metis prod.exhaust)
  note step = iteration_step [where runner = runner, OF r, of from_date]
  have "calls (snd (time_split_iteration ts runner request lim from_date v m))
        = calls m @ [(length (heap m), ?sub)]"
    and "heap (snd (time_split_iteration ts runner request lim from_date v m)) = heap m @ [left]"
    and "total_results (fst (time_split_iteration ts runner request lim from_date v m))
        = int (length (collected (fst (time_split_iteration ts runner request lim from_date v m))))"
    by (simp_all add: step advance_collected)
  moreover have "limit (query ?sub) = Some ((lim - int (length (collected v))) + remaining_offset v)"
    using held by (simp add: sub_request_rest)
  moreover from alloc have "length (heap m) \<noteq> request"
    by simp
  ultimately show ?thesis
    using sub_request_rest(1,2,3) [where ts = ts and lim = lim and v = v and req = "heap m ! request"]
      sub_request_conditions [where ts = ts and lim = lim and v = v and req = "heap m ! request"]
    by blast
qed

theorem time_split_sub_request_witness:
  "\<exists>sub left.
      calls (snd (time_split_iteration ''timestamp''
                   (store_runner ''timestamp'' example_time example_rows) 0 5 63000000000
                   \<lparr>overall_result = None, split_start = 63000003600, split_end = 63000007200,
                      split_step = 3600, total_results = 0, remaining_offset = 0\<rparr>
                   (initial_machine example_request ())))
        = [(1, sub)]
    \<and> sub\<lparr>query := example_query\<rparr> = example_request
    \<and> get_conditions_or_empty (query sub)
        = [Cond (PStr ''project_id'') ''IN'' (PList [PInt 1]),
           Cond (PStr ''timestamp'') ''>='' (PIso 63000003600),
           Cond (PStr ''timestamp'') ''<'' (PIso 63000007200)]
    \<and> offset (query sub) = 0
    \<and> limit (query sub) = Some 5"
  using time_split_sub_request [where request = 0 and m = "initial_machine example_request ()"
      and v = "\<lparr>overall_result = None, split_start = 63000003600, split_end = 63000007200,
                 split_step = 3600, total_results = 0, remaining_offset = 0\<rparr>"
      and ts = "''timestamp''" and runner = "store_runner ''timestamp'' example_time example_rows"
      and lim = 5 and from_date = 63000000000]
  by (simp add: initial_machine_def collected_def example_request_def example_query_def
        get_conditions_or_empty_def to_window_def isoformat_def) blast

section \<open>The sub-request of the monolithic strategy (snuba/datasets/plans/split.py)\<close>

text \<open>
  \<^verbatim>\<open>d[key] = value\<close> on a dictionary kept as an association list, and
  \<^verbatim>\<open>request.extensions["timeseries"][key] = value\<close>, a KeyError when the request has
  no timeseries extension.
\<close>

fun dict_set :: "string \<Rightarrow> 'v \<Rightarrow> (string \<times> 'v) list \<Rightarrow> (string \<times> 'v) list" where
  "dict_set k x [] = [(k, x)]"
| "dict_set k x ((k', x') # kvs) =
     (if k = k' then (k, x) # kvs else (k', x') # dict_set k x kvs)"

definition set_timeseries ::
  "string \<Rightarrow> pyval \<Rightarrow> (string \<times> (string \<times> pyval) list) list
     \<Rightarrow> error + (string \<times> (string \<times> pyval) list) list" where
  "set_timeseries key x exts =
     (case map_of exts ''timeseries'' of
        None \<Rightarrow> Inl KeyError
      | Some timeseries \<Rightarrow> Inr (dict_set ''timeseries'' (dict_set key x timeseries) exts))"

text \<open>
  Lines 116 to 130 of \<^verbatim>\<open>SplitQueryPlanExecutionStrategy.__time_split\<close>: the request
  of one pass. The window is written to the timeseries extension, and conditions on
  the literal column \<^verbatim>\<open>timestamp\<close> are added to the query.
\<close>

definition legacy_split_request ::
  "nat \<Rightarrow> int \<Rightarrow> int \<Rightarrow> int \<Rightarrow> 'w machine \<Rightarrow> error + (nat \<times> 'w machine)" where
  "legacy_split_request request start stop new_limit m =
     (let (split_request, m) = deepcopy request m
      in case set_timeseries ''from_date'' (isoformat start)
                (extensions (heap m ! split_request)) of
           Inl e \<Rightarrow> Inl e
         | Inr exts \<Rightarrow>
      (let m = update_extensions split_request (\<lambda>old. exts) m
       in case set_timeseries ''to_date'' (isoformat stop)
                 (extensions (heap m ! split_request)) of
            Inl e \<Rightarrow> Inl e
          | Inr exts \<Rightarrow>
       (let m = update_extensions split_request (\<lambda>old. exts) m;
            m = update_query split_request
                  (add_conditions [Cond (PStr ''timestamp'') ''>='' (isoformat start),
                                   Cond (PStr ''timestamp'') ''<'' (isoformat stop)]) m;
            m = update_query split_request (set_offset 0) m;
            m = update_query split_request (set_limit new_limit) m
        in Inr (split_request, m))))"

text \<open>The timeseries entry of a request's extensions.\<close>

definition timeseries_entry :: "request \<Rightarrow> string \<Rightarrow> pyval option" where
  "timeseries_entry req key =
     (case map_of (extensions req) ''timeseries'' of
        None \<Rightarrow> None
      | Some timeseries \<Rightarrow> map_of timeseries key)"

lemma map_of_dict_set: "map_of (dict_set k x kvs) = (map_of kvs)(k \<mapsto> x)"
  by (induction kvs) (auto simp: fun_eq_iff)

lemma timeseries_entry_set:
  assumes "set_timeseries key x exts = Inr exts'"
  shows "timeseries_entry (req\<lparr>extensions := exts'\<rparr>) k
           = (if k = key then Some x else timeseries_entry (req\<lparr>extensions := exts\<rparr>) k)"
  using assms
  by (auto simp: set_timeseries_def timeseries_entry_def map_of_dict_set split: option.splits)


lemma legacy_split_request_result:
  assumes alloc: "request < length (heap m)"
    and run: "legacy_split_request request start stop new_limit m = Inr (a, m')"
  shows "\<exists>e1 e2. set_timeseries ''from_date'' (isoformat start) (extensions (heap m ! request)) = Inr e1
      \<and> set_timeseries ''to_date'' (isoformat stop) e1 = Inr e2
      \<and> a = length (heap m)
      \<and> heap m' = heap m @ [(heap m ! request)
            \<lparr>query := set_limit new_limit (set_offset 0
                (add_conditions [Cond (PStr ''timestamp'') ''>='' (isoformat start),
                                 Cond (PStr ''timestamp'') ''<'' (isoformat stop)]
                   (query (heap m ! request)))),
             extensions := e2\<rparr>]"
  using run
  by (auto simp: legacy_split_request_def deepcopy_def update_extensions_def update_query_def
        Let_def split: sum.splits)

text \<open>
  C4, as the code has it. In the monolithic strategy the request of a pass carries its
  window both in the timeseries extension and in the two timestamp conditions added to
  the query. In the pluggable \<^verbatim>\<open>TimeSplitQueryStrategy\<close> the request of a pass has
  its timestamp conditions rewritten to the window and its extensions are those of the
  original request, whatever the window.
\<close>

theorem time_range_rewrite_and_extension:
  assumes alloc: "request < length (heap m)"
  shows "(\<forall>a m'. legacy_split_request request start stop new_limit m = Inr (a, m') \<longrightarrow>
            timeseries_entry (heap m' ! a) ''from_date'' = Some (isoformat start)
            \<and> timeseries_entry (heap m' ! a) ''to_date'' = Some (isoformat stop)
            \<and> get_conditions_or_empty (query (heap m' ! a))
                = get_conditions_or_empty (query (heap m ! request))
                  @ [Cond (PStr ''timestamp'') ''>='' (isoformat start),
                     Cond (PStr ''timestamp'') ''<'' (isoformat stop)])
       \<and> (\<exists>sub. calls (snd (time_split_iteration ts runner request lim from_date v m))
                   = calls m @ [(length (heap m), sub)]
            \<and> get_conditions_or_empty (query sub)
                = map (to_window ts (split_start v) (split_end v))
                    (get_conditions_or_empty (query (heap m ! request)))
            \<and> extensions sub = extensions (heap m ! request))"
proof (intro conjI allI impI)
  fix a m'
  assume run: "legacy_split_request request start stop new_limit m = Inr (a, m')"
  from legacy_split_request_result [OF alloc run] obtain e1 e2 where
    e1: "set_timeseries ''from_date'' (isoformat start) (extensions (heap m ! request)) = Inr e1"
    and e2: "set_timeseries ''to_date'' (isoformat stop) e1 = Inr e2"
    and a: "a = length (heap m)"
    and h: "heap m' = heap m @ [(heap m ! request)
            \<lparr>query := set_limit new_limit (set_offset 0
                (add_conditions [Cond (PStr ''timestamp'') ''>='' (isoformat start),
                                 Cond (PStr ''timestamp'') ''<'' (isoformat stop)]
                   (query (heap m ! request)))),
             extensions := e2\<rparr>]"
    by blast
  have t1: "\<And>k. timeseries_entry ((heap m ! request)\<lparr>extensions := e1\<rparr>) k
      = (if k = ''from_date'' then Some (isoformat start)
         else timeseries_entry ((heap m ! request)\<lparr>extensions := extensions (heap m ! request)\<rparr>) k)"
    by (rule timeseries_entry_set [OF e1])
  have t2: "\<And>k. timeseries_entry ((heap m ! request)\<lparr>extensions := e2\<rparr>) k
      = (if k = ''to_date'' then Some (isoformat stop)
         else timeseries_entry ((heap m ! request)\<lparr>extensions := e1\<rparr>) k)"
    by (rule timeseries_entry_set [OF e2])
  have ext: "\<And>q k. timeseries_entry ((heap m ! request)\<lparr>query := q, extensions := e2\<rparr>) k
      = timeseries_entry ((heap m ! request)\<lparr>extensions := e2\<rparr>) k"
    by (simp add: timeseries_entry_def)
  show "timeseries_entry (heap m' ! a) ''from_date'' = Some (isoformat start)"
    by (simp add: a h ext t2 t1)
  show "timeseries_entry (heap m' ! a) ''to_date'' = Some (isoformat stop)"
    by (simp add: a h ext t2)
  show "get_conditions_or_empty (query (heap m' ! a))
          = get_conditions_or_empty (query (heap m ! request))
            @ [Cond (PStr ''timestamp'') ''>='' (isoformat start),
               Cond (PStr ''timestamp'') ''<'' (isoformat stop)]"
    by (simp add: a h set_limit_def set_offset_def add_conditions_def get_conditions_or_empty_def)
next
  let ?sub = "sub_request ts lim v (heap m ! request)"
  obtain result left w where r: "runner ?sub (world m) = ((result, left), w)"
    by (metis prod.exhaust)
  have "calls (snd (time_split_iteration ts runner request lim from_date v m))
        = calls m @ [(length (heap m), ?sub)]"
    by (simp add: iteration_step [where runner = runner, OF r])
  then show "\<exists>sub. calls (snd (time_split_iteration ts runner request lim from_date v m))
                   = calls m @ [(length (heap m), sub)]
            \<and> get_conditions_or_empty (query sub)
                = map (to_window ts (split_start v) (split_end v))
                    (get_conditions_or_empty (query (heap m ! request)))
            \<and> extensions sub = extensions (heap m ! request)"
    using sub_request_conditions [where ts = ts and lim = lim and v = v and req = "heap m ! request"]
      sub_request_rest(5) [where ts = ts and lim = lim and v = v and req = "heap m ! request"]
    by blast
qed


text \<open>
  The claim as stated fails for the pluggable strategy: on the example request the
  first pass asks for the rows from \<open>63000003600\<close> on, while the timeseries extension
  of that same sub-request still says \<open>63000000000\<close>.
\<close>

theorem time_range_rewrite_and_extension_counterexample:
  "map (\<lambda>(a, sub). (first_literal (get_conditions_or_empty (query sub)) ''timestamp'' ''>='',
                     timeseries_entry sub ''from_date''))
     (calls (snd (projr (time_split_execute example_externals ''timestamp''
        (store_runner ''timestamp'' example_time example_rows) 0
        (initial_machine example_request ())))))
   = [(Inr (PIso 63000003600), Some (PIso 63000000000)),
      (Inr (PIso 63000000000), Some (PIso 63000000000))]"
  by (simp add: run_simps example_simps timeseries_entry_def)

theorem time_range_rewrite_and_extension_witness:
  "timeseries_entry
     (heap (snd (projr (legacy_split_request 0 63000003600 63000007200 5
        (initial_machine example_request ()))))
      ! fst (projr (legacy_split_request 0 63000003600 63000007200 5
        (initial_machine example_request ()))))
     ''from_date'' = Some (PIso 63000003600)
   \<and> (\<exists>sub. calls (snd (time_split_iteration ''timestamp''
                   (store_runner ''timestamp'' example_time example_rows) 0 5 63000000000
                   \<lparr>overall_result = None, split_start = 63000003600, split_end = 63000007200,
                      split_step = 3600, total_results = 0, remaining_offset = 0\<rparr>
                   (initial_machine example_request ())))
          = [(1, sub)]
        \<and> extensions sub = extensions example_request)"
proof -
  let ?m = "initial_machine example_request () :: unit machine"
  let ?l = "legacy_split_request 0 63000003600 63000007200 5 ?m"
  have alloc: "0 < length (heap ?m)"
    by (simp add: initial_machine_def)
  note t = time_range_rewrite_and_extension [OF alloc, where start = 63000003600
      and stop = 63000007200 and new_limit = 5 and ts = "''timestamp''"
      and runner = "store_runner ''timestamp'' example_time example_rows" and lim = 5
      and from_date = 63000000000
      and v = "\<lparr>overall_result = None, split_start = 63000003600, split_end = 63000007200,
                 split_step = 3600, total_results = 0, remaining_offset = 0\<rparr>"]
  have "\<not> isl ?l"
    by (simp add: legacy_split_request_def set_timeseries_def deepcopy_eval initial_machine_def
          example_request_def update_extensions_def update_query_eval Let_def)
  then have "?l = Inr (fst (projr ?l), snd (projr ?l))"
    by (rule Inr_projr)
  with t have "timeseries_entry (heap (snd (projr ?l)) ! fst (projr ?l)) ''from_date''
      = Some (isoformat 63000003600)"
    by blast
  moreover from t have "\<exists>sub. calls (snd (time_split_iteration ''timestamp''
                   (store_runner ''timestamp'' example_time example_rows) 0 5 63000000000
                   \<lparr>overall_result = None, split_start = 63000003600, split_end = 63000007200,
                      split_step = 3600, total_results = 0, remaining_offset = 0\<rparr> ?m))
          = calls ?m @ [(length (heap ?m), sub)]
        \<and> extensions sub = extensions (heap ?m ! 0)"
    by blast
  ultimately show ?thesis
    by (simp add: isoformat_def initial_machine_def)
qed

section \<open>The second phase of the column split\<close>

lemma column_split_rows_run:
  assumes pre: "column_can_execute ext spec (heap m ! request)"
    and alloc: "request < length (heap m)"
    and first: "runner (minimal_request spec (heap m ! request)) (world m) = ((r1, left1), w1)"
    and rows: "data r1 \<noteq> []"
    and ids: "column_values (data r1) (id_column spec) = Inr ids"
    and event_ids: "distinct_values ids = Inr event_ids"
    and projects: "column_values (data r1) (project_column spec) = Inr projects"
    and project_ids: "distinct_values projects = Inr project_ids"
    and timestamps: "column_values (data r1) (timestamp_column spec) = Inr timestamps"
    and earliest: "py_min timestamps = Inr earliest"
    and lower: "parse_datetime ext earliest 1 = Inr lower"
    and latest: "py_max timestamps = Inr latest"
    and upper: "parse_datetime ext latest 1 = Inr upper"
    and upper1: "plus_seconds upper 1 = Inr upper1"
    and second: "runner (second_request spec event_ids project_ids lower upper1 (heap m ! request)) w1
                   = ((r2, left2), w2)"
  shows "column_split_execute ext spec runner request m =
           Inr (Some r2,
                m\<lparr>heap := heap m @ [left1, left2], world := w2,
                   calls := calls m @
                     [(length (heap m), minimal_request spec (heap m ! request)),
                      (Suc (length (heap m)),
                       second_request spec event_ids project_ids lower upper1 (heap m ! request))]\<rparr>)"
proof -
  have one: "(case deepcopy request m of (minimal, m1) \<Rightarrow>
      call_runner runner minimal
        (update_query minimal (set_selected_columns (get_min_columns spec)) m1))
     = (r1, m\<lparr>heap := heap m @ [left1], world := w1,
               calls := calls m @ [(length (heap m), minimal_request spec (heap m ! request))]\<rparr>)"
    by (simp add: column_split_first_phase first)
  let ?m1 = "m\<lparr>heap := heap m @ [left1], world := w1,
               calls := calls m @ [(length (heap m), minimal_request spec (heap m ! request))]\<rparr>"
  have orig: "heap ?m1 ! request = heap m ! request"
    using alloc by (simp add: nth_append)
  have two: "(case deepcopy request ?m1 of (second, m1) \<Rightarrow>
      call_runner runner second
        (update_query second (replace_condition (timestamp_column spec) ''<'' (isoformat upper1))
          (update_query second (replace_condition (timestamp_column spec) ''>='' (isoformat lower))
            (update_query second (replace_condition (project_column spec) ''IN'' (PList project_ids))
              (update_query second (set_limit (int (length event_ids)))
                (update_query second (set_offset 0)
                  (update_query second
                    (add_conditions [Cond (PStr (id_column spec)) ''IN'' (PList event_ids)]) m1)))))))
     = (r2, m\<lparr>heap := heap m @ [left1, left2], world := w2,
                   calls := calls m @
                     [(length (heap m), minimal_request spec (heap m ! request)),
                      (Suc (length (heap m)),
                       second_request spec event_ids project_ids lower upper1 (heap m ! request))]\<rparr>)"
    unfolding column_split_second_phase orig using second by simp
  note one' = one [unfolded case_prod_beta]
  note two' = two [unfolded case_prod_beta]
  show ?thesis
    using pre rows
    by (simp add: column_split_execute_def Let_def case_prod_beta one' two' ids event_ids
          projects project_ids timestamps earliest lower latest upper upper1)
qed


text \<open>The rewrite of one condition of the original request for the second phase.\<close>

definition narrow :: "column_split_spec \<Rightarrow> pyval list \<Rightarrow> int \<Rightarrow> int \<Rightarrow> condition \<Rightarrow> condition" where
  "narrow spec project_ids lower upper c =
     (if identify_condition c (project_column spec) ''IN''
        then Cond (PStr (project_column spec)) ''IN'' (PList project_ids)
      else if identify_condition c (timestamp_column spec) ''>=''
        then Cond (PStr (timestamp_column spec)) ''>='' (isoformat lower)
      else if identify_condition c (timestamp_column spec) ''<''
        then Cond (PStr (timestamp_column spec)) ''<'' (isoformat upper)
      else c)"

lemma narrow_thrice:
  "(\<lambda>c. if identify_condition c ts ''<'' then Cond (PStr ts) ''<'' z else c)
     ((\<lambda>c. if identify_condition c ts ''>='' then Cond (PStr ts) ''>='' y else c)
        ((\<lambda>c. if identify_condition c pr ''IN'' then Cond (PStr pr) ''IN'' x else c) c))
   = (if identify_condition c pr ''IN'' then Cond (PStr pr) ''IN'' x
      else if identify_condition c ts ''>='' then Cond (PStr ts) ''>='' y
      else if identify_condition c ts ''<'' then Cond (PStr ts) ''<'' z else c)"
  by (cases c) simp_all

lemma second_request_conditions:
  assumes "id_column spec \<noteq> project_column spec"
  shows "get_conditions_or_empty (query (second_request spec event_ids project_ids lower upper1 req))
     = map (narrow spec project_ids lower upper1) (get_conditions_or_empty (query req))
       @ [Cond (PStr (id_column spec)) ''IN'' (PList event_ids)]"
proof -
  let ?c = "Cond (PStr (id_column spec)) ''IN'' (PList event_ids)"
  have "get_conditions_or_empty (query (second_request spec event_ids project_ids lower upper1 req))
     = map (\<lambda>c. if identify_condition c (timestamp_column spec) ''<''
                 then Cond (PStr (timestamp_column spec)) ''<'' (isoformat upper1) else c)
        (map (\<lambda>c. if identify_condition c (timestamp_column spec) ''>=''
                 then Cond (PStr (timestamp_column spec)) ''>='' (isoformat lower) else c)
          (map (\<lambda>c. if identify_condition c (project_column spec) ''IN''
                 then Cond (PStr (project_column spec)) ''IN'' (PList project_ids) else c)
            (get_conditions_or_empty (query req) @ [?c])))"
    by (simp add: second_request_def replace_condition_conditions)
       (simp add: set_limit_def set_offset_def add_conditions_def get_conditions_or_empty_def)
  also have "\<dots> = map (narrow spec project_ids lower upper1) (get_conditions_or_empty (query req) @ [?c])"
    unfolding map_map o_def narrow_thrice narrow_def ..
  also have "\<dots> = map (narrow spec project_ids lower upper1) (get_conditions_or_empty (query req)) @ [?c]"
    using assms by (simp add: narrow_def)
  finally show ?thesis .
qed

lemma second_request_rest:
  "(second_request spec event_ids project_ids lower upper1 req)\<lparr>query := query req\<rparr> = req"
  "(query (second_request spec event_ids project_ids lower upper1 req))
      \<lparr>conditions := conditions (query req), limit := limit (query req),
       offset := offset (query req)\<rparr> = query req"
  "offset (query (second_request spec event_ids project_ids lower upper1 req)) = 0"
  "limit (query (second_request spec event_ids project_ids lower upper1 req))
     = Some (int (length event_ids))"
  by (simp_all add: second_request_def set_limit_def set_offset_def replace_condition_def
        set_conditions_def add_conditions_def)

lemma column_values_length:
  "column_values rows column = Inr xs \<Longrightarrow> length xs = length rows"
  by (induction rows arbitrary: xs) (auto split: option.splits sum.splits)

lemma iso_seconds_map: "iso_seconds (map PIso stamps) = Inr stamps"
  by (induction stamps) simp_all

lemma py_min_iso: "stamps \<noteq> [] \<Longrightarrow> py_min (map PIso stamps) = Inr (PIso (Min (set stamps)))"
  by (cases stamps) (simp_all add: py_min_def iso_seconds_map Min.set_eq_fold del: set_simps)

lemma py_max_iso: "stamps \<noteq> [] \<Longrightarrow> py_max (map PIso stamps) = Inr (PIso (Max (set stamps)))"
  by (cases stamps) (simp_all add: py_max_def iso_seconds_map Max.set_eq_fold del: set_simps)


text \<open>
  C10. When the precondition holds and the first phase returns rows that carry the
  three columns, with hashable ids and projects and ISO timestamps below the largest
  datetime, and \<^verbatim>\<open>parse_datetime\<close> reads an ISO text back, the second runner call
  is made on a fresh deep copy of the original request that differs from it only in
  the conditions, the offset and the limit of its query: a condition \<open>id IN ids\<close> is
  added, where \<open>ids\<close> are the distinct first-phase ids; the offset is 0 and the limit
  their number; every top-level \<open>project IN\<close> condition carries the distinct first-phase
  projects; every top-level \<open>>=\<close> condition on the timestamp carries the least
  first-phase timestamp and every \<open><\<close> condition on it the greatest plus one second.
\<close>

theorem column_split_second_request:
  assumes pre: "column_can_execute ext spec (heap m ! request)"
    and alloc: "request < length (heap m)"
    and first: "runner (minimal_request spec (heap m ! request)) (world m) = ((r1, left1), w1)"
    and rows: "data r1 \<noteq> []"
    and ids: "column_values (data r1) (id_column spec) = Inr ids"
    and projects: "column_values (data r1) (project_column spec) = Inr projects"
    and timestamps: "column_values (data r1) (timestamp_column spec) = Inr (map PIso stamps)"
    and hashable: "\<not> list_ex is_list ids" "\<not> list_ex is_list projects"
    and parse: "\<forall>t. parse_datetime ext (PIso t) 1 = Inr t"
    and range: "\<forall>t \<in> set stamps. 0 \<le> t \<and> t < DATETIME_MAX"
    and columns: "id_column spec \<noteq> project_column spec"
  shows "\<exists>r2 m' second event_ids project_ids.
      column_split_execute ext spec runner request m = Inr (Some r2, m')
    \<and> calls m' = calls m @ [(length (heap m), minimal_request spec (heap m ! request)),
                              (Suc (length (heap m)), second)]
    \<and> Suc (length (heap m)) \<noteq> request
    \<and> second\<lparr>query := query (heap m ! request)\<rparr> = heap m ! request
    \<and> (query second)\<lparr>conditions := conditions (query (heap m ! request)),
                       limit := limit (query (heap m ! request)),
                       offset := offset (query (heap m ! request))\<rparr> = query (heap m ! request)
    \<and> set event_ids = set ids \<and> distinct event_ids
    \<and> set project_ids = set projects \<and> distinct project_ids
    \<and> get_conditions_or_empty (query second)
        = map (narrow spec project_ids (Min (set stamps)) (Max (set stamps) + 1))
            (get_conditions_or_empty (query (heap m ! request)))
          @ [Cond (PStr (id_column spec)) ''IN'' (PList event_ids)]
    \<and> offset (query second) = 0
    \<and> limit (query second) = Some (int (card (set ids)))"
proof -
  let ?orig = "heap m ! request"
  let ?lower = "Min (set stamps)"
  let ?upper = "Max (set stamps)"
  let ?second = "second_request spec (remdups ids) (remdups projects) ?lower (?upper + 1) ?orig"
  from timestamps rows have "length (map PIso stamps) = length (data r1)"
    by (intro column_values_length)
  with rows have ne: "stamps \<noteq> []"
    by auto
  then have "?upper \<in> set stamps"
    by (intro Max_in) simp_all
  with range have "0 \<le> ?upper \<and> ?upper < DATETIME_MAX"
    by blast
  then have plus: "plus_seconds ?upper 1 = Inr (?upper + 1)"
    by (simp add: plus_seconds_def timedelta_seconds_def datetime_add_def)
  obtain r2 left2 w2 where second: "runner ?second w1 = ((r2, left2), w2)"
    by (metis prod.exhaust)
  have run: "column_split_execute ext spec runner request m =
           Inr (Some r2,
                m\<lparr>heap := heap m @ [left1, left2], world := w2,
                   calls := calls m @
                     [(length (heap m), minimal_request spec ?orig),
                      (Suc (length (heap m)), ?second)]\<rparr>)"
    using pre alloc first rows ids _ projects _ timestamps py_min_iso [OF ne] _ py_max_iso [OF ne]
      _ plus second
    by (rule column_split_rows_run) (simp_all add: distinct_values_def hashable parse)
  have "limit (query ?second) = Some (int (card (set ids)))"
    by (simp add: second_request_rest length_remdups_card_conv)
  moreover from alloc have "Suc (length (heap m)) \<noteq> request"
    by simp
  moreover have "set (remdups ids) = set ids \<and> distinct (remdups ids)
      \<and> set (remdups projects) = set projects \<and> distinct (remdups projects)"
    by simp
  ultimately show ?thesis
    using run second_request_rest(1,2,3) [where spec = spec and event_ids = "remdups ids"
        and project_ids = "remdups projects" and lower = ?lower and ?upper1.0 = "?upper + 1"
        and req = ?orig]
      second_request_conditions [OF columns, where event_ids = "remdups ids"
        and project_ids = "remdups projects" and lower = ?lower and ?upper1.0 = "?upper + 1"
        and req = ?orig]
    by (intro exI [of _ r2] exI [of _ "m\<lparr>heap := heap m @ [left1, left2], world := w2,
                   calls := calls m @
                     [(length (heap m), minimal_request spec ?orig),
                      (Suc (length (heap m)), ?second)]\<rparr>"]
          exI [of _ ?second] exI [of _ "remdups ids"] exI [of _ "remdups projects"]) simp
qed


theorem column_split_second_request_witness:
  "\<exists>r2 m' second event_ids project_ids.
      column_split_execute example_externals example_spec
        (store_runner ''timestamp'' example_time example_rows) 0
        (initial_machine example_request ()) = Inr (Some r2, m')
    \<and> calls m' = [(1, minimal_request example_spec example_request), (2, second)]
    \<and> set event_ids = {PInt 1, PInt 2, PInt 3, PInt 4, PInt 5}
    \<and> set project_ids = {PInt 1}
    \<and> get_conditions_or_empty (query second)
        = [Cond (PStr ''project_id'') ''IN'' (PList project_ids),
           Cond (PStr ''timestamp'') ''>='' (PIso 63000000100),
           Cond (PStr ''timestamp'') ''<'' (PIso 63000007001),
           Cond (PStr ''event_id'') ''IN'' (PList event_ids)]
    \<and> offset (query second) = 0
    \<and> limit (query second) = Some 5"
proof -
  let ?m = "initial_machine example_request () :: unit machine"
  let ?store = "store_runner ''timestamp'' example_time example_rows :: unit runner"
  let ?ids = "[PInt 1, PInt 2, PInt 3, PInt 4, PInt 5]"
  let ?projects = "[PInt 1, PInt 1, PInt 1, PInt 1, PInt 1]"
  let ?stamps = "[63000007000, 63000005000, 63000003000, 63000003000, 63000000100] :: int list"
  have orig: "heap ?m ! 0 = example_request" "length (heap ?m) = 1" "calls ?m = []"
    by (simp_all add: initial_machine_def)
  have pre: "column_can_execute example_externals example_spec (heap ?m ! 0)"
    by (simp add: column_run_simps example_simps example_spec_def)
  have alloc: "0 < length (heap ?m)"
    by (simp add: initial_machine_def)
  have first: "?store (minimal_request example_spec (heap ?m ! 0)) (world ?m)
      = ((\<lparr>data = example_rows, meta = PNone\<rparr>, minimal_request example_spec (heap ?m ! 0)), ())"
    by (simp add: column_run_simps example_simps example_spec_def)
  have rows: "data \<lparr>data = example_rows, meta = PNone\<rparr> \<noteq> []"
    by (simp add: example_rows_def)
  have ids: "column_values (data \<lparr>data = example_rows, meta = PNone\<rparr>) (id_column example_spec) = Inr ?ids"
    and projects: "column_values (data \<lparr>data = example_rows, meta = PNone\<rparr>) (project_column example_spec) = Inr ?projects"
    and timestamps: "column_values (data \<lparr>data = example_rows, meta = PNone\<rparr>) (timestamp_column example_spec) = Inr (map PIso ?stamps)"
    by (simp_all add: example_rows_def example_row_def example_spec_def)
  have hashable: "\<not> list_ex is_list ?ids" "\<not> list_ex is_list ?projects"
    by simp_all
  have parse: "\<forall>t. parse_datetime example_externals (PIso t) 1 = Inr t"
    by (simp add: example_externals_def example_parse_def)
  have range: "\<forall>t \<in> set ?stamps. 0 \<le> t \<and> t < DATETIME_MAX"
    by (simp add: DATETIME_MAX_def)
  have columns: "id_column example_spec \<noteq> project_column example_spec"
    by (simp add: example_spec_def)
  from column_split_second_request [where runner = ?store and stamps = ?stamps,
      OF pre alloc first rows ids projects timestamps hashable parse range columns]
  obtain r2 m' second event_ids project_ids where
    run: "column_split_execute example_externals example_spec ?store 0 ?m = Inr (Some r2, m')"
    and c: "calls m' = calls ?m @ [(length (heap ?m), minimal_request example_spec (heap ?m ! 0)),
                              (Suc (length (heap ?m)), second)]"
    and e: "set event_ids = set ?ids"
    and p: "set project_ids = set ?projects"
    and conds: "get_conditions_or_empty (query second)
        = map (narrow example_spec project_ids (Min (set ?stamps)) (Max (set ?stamps) + 1))
            (get_conditions_or_empty (query (heap ?m ! 0)))
          @ [Cond (PStr (id_column example_spec)) ''IN'' (PList event_ids)]"
    and off: "offset (query second) = 0"
    and lim: "limit (query second) = Some (int (card (set ?ids)))"
    by blast
  from c have c': "calls m' = [(1, minimal_request example_spec example_request), (2, second)]"
    by (simp add: orig)
  from e have e': "set event_ids = {PInt 1, PInt 2, PInt 3, PInt 4, PInt 5}"
    by simp
  from p have p': "set project_ids = {PInt 1}"
    by simp
  from conds have conds': "get_conditions_or_empty (query second)
        = [Cond (PStr ''project_id'') ''IN'' (PList project_ids),
           Cond (PStr ''timestamp'') ''>='' (PIso 63000000100),
           Cond (PStr ''timestamp'') ''<'' (PIso 63000007001),
           Cond (PStr ''event_id'') ''IN'' (PList event_ids)]"
    by (simp add: initial_machine_def narrow_def isoformat_def example_spec_def
          example_request_def example_query_def get_conditions_or_empty_def)
  from lim have lim': "limit (query second) = Some 5"
    by simp
  from run c' e' p' conds' off lim' show ?thesis
    by blast
qed

section \<open>The next window after a first pass that trims the offset\<close>

text \<open>
  C9 at a first pass with an offset. The example request with limit 10 and offset 1:
  the first window holds two rows, both are returned, one is trimmed away, one is
  kept and nine are still needed. The code multiplies the step by 9, the ceiling of
  nine over the one row kept, since in the first pass \<^verbatim>\<open>result\<close> and
  \<^verbatim>\<open>overall_result\<close> are one object; the rule of the claim is the ceiling of nine
  over the two rows returned, which is 5.
\<close>

theorem next_window_first_pass_with_offset:
  "split_step (fst (time_split_iteration ''timestamp''
       (store_runner ''timestamp'' example_time example_rows) 0 10 63000000000
       \<lparr>overall_result = None, split_start = 63000003600, split_end = 63000007200,
          split_step = 3600, total_results = 0, remaining_offset = 1\<rparr>
       (initial_machine (example_request\<lparr>query := example_query\<lparr>limit := Some 10, offset := 1\<rparr>\<rparr>) ())))
     = 3600 * 9
   \<and> map (\<lambda>(a, sub). length (store_rows ''timestamp'' example_time example_rows sub))
       (calls (snd (time_split_iteration ''timestamp''
       (store_runner ''timestamp'' example_time example_rows) 0 10 63000000000
       \<lparr>overall_result = None, split_start = 63000003600, split_end = 63000007200,
          split_step = 3600, total_results = 0, remaining_offset = 1\<rparr>
       (initial_machine (example_request\<lparr>query := example_query\<lparr>limit := Some 10, offset := 1\<rparr>\<rparr>) ()))))
     = [2]
   \<and> total_results (fst (time_split_iteration ''timestamp''
       (store_runner ''timestamp'' example_time example_rows) 0 10 63000000000
       \<lparr>overall_result = None, split_start = 63000003600, split_end = 63000007200,
          split_step = 3600, total_results = 0, remaining_offset = 1\<rparr>
       (initial_machine (example_request\<lparr>query := example_query\<lparr>limit := Some 10, offset := 1\<rparr>\<rparr>) ())))
     = 1
   \<and> ceil_div (10 - 1) 2 = 5"
  by (simp add: run_simps example_simps)

section \<open>The time split on an empty range\<close>

text \<open>
  C5 at a request whose range is empty. The example request with both bounds at
  \<open>63000000000\<close> satisfies the precondition of the time split; the loop body never
  runs, no runner call is made, and \<^verbatim>\<open>execute\<close> returns \<^verbatim>\<open>None\<close>.
\<close>

theorem time_split_empty_range_returns_none:
  "time_can_execute example_externals ''timestamp''
     (example_request\<lparr>query := example_query\<lparr>conditions :=
        Some [Cond (PStr ''timestamp'') ''>='' (PIso 63000000000),
              Cond (PStr ''timestamp'') ''<'' (PIso 63000000000)]\<rparr>\<rparr>)
   \<and> time_split_execute example_externals ''timestamp''
       (store_runner ''timestamp'' example_time example_rows) 0
       (initial_machine (example_request\<lparr>query := example_query\<lparr>conditions :=
          Some [Cond (PStr ''timestamp'') ''>='' (PIso 63000000000),
                Cond (PStr ''timestamp'') ''<'' (PIso 63000000000)]\<rparr>\<rparr>) ())
     = Inr (None, initial_machine (example_request\<lparr>query := example_query\<lparr>conditions :=
          Some [Cond (PStr ''timestamp'') ''>='' (PIso 63000000000),
                Cond (PStr ''timestamp'') ''<'' (PIso 63000000000)]\<rparr>\<rparr>) ())"
  by (simp add: run_simps example_simps)

section \<open>Bounds on the loop\<close>


lemma advance_stay:
  assumes "\<not> total_results (advance lim from_date v result) < lim"
  shows "split_start (advance lim from_date v result) = split_start v"
    and "split_end (advance lim from_date v result) = split_end v"
    and "split_step (advance lim from_date v result) = split_step v"
  using assms by (simp_all add: advance_def Let_def next_window_simps split: if_splits)


lemma loop_pass:
  assumes "split_start v < split_end v" and "total_results v < lim"
    and "runner (sub_request ts lim v (heap m ! request)) (world m) = ((result, left), w)"
  shows "time_split_loop ts runner request lim from_date v m =
           time_split_loop ts runner request lim from_date (advance lim from_date v result)
             (m\<lparr>heap := heap m @ [left], world := w,
                calls := calls m @ [(length (heap m), sub_request ts lim v (heap m ! request))]\<rparr>)"
  using assms(1,2) by (simp add: loop_continue iteration_step [where runner = runner, OF assms(3)])

lemma loop_induct [consumes 0, case_names stop pass]:
  assumes stop: "\<And>v m. \<not> (split_start v < split_end v \<and> total_results v < lim) \<Longrightarrow> P v m"
    and pass: "\<And>v m result left w.
        split_start v < split_end v \<Longrightarrow> total_results v < lim \<Longrightarrow>
        runner (sub_request ts lim v (heap m ! request)) (world m) = ((result, left), w) \<Longrightarrow>
        P (advance lim from_date v result)
          (m\<lparr>heap := heap m @ [left], world := w,
             calls := calls m @ [(length (heap m), sub_request ts lim v (heap m ! request))]\<rparr>) \<Longrightarrow>
        P v m"
  shows "P v (m :: 'w machine)"
proof (induction "loop_measure lim from_date v" arbitrary: v m rule: less_induct)
  case (less v m)
  show ?case
  proof (cases "split_start v < split_end v \<and> total_results v < lim")
    case False
    then show ?thesis by (rule stop)
  next
    case True
    let ?r = "runner (sub_request ts lim v (heap m ! request)) (world m)"
    have r: "?r = ((fst (fst ?r), snd (fst ?r)), snd ?r)"
      by simp
    from True have "loop_measure lim from_date (advance lim from_date v (fst (fst ?r)))
        < loop_measure lim from_date v"
      by (simp add: advance_decreases)
    then have "P (advance lim from_date v (fst (fst ?r)))
          (m\<lparr>heap := heap m @ [snd (fst ?r)], world := snd ?r,
             calls := calls m @ [(length (heap m), sub_request ts lim v (heap m ! request))]\<rparr>)"
      by (rule less.hyps)
    with True show ?thesis
      using pass [OF _ _ r] by blast
  qed
qed


text \<open>An upper bound on the passes still to come, read off the loop variables.\<close>

definition passes_left :: "int \<Rightarrow> int \<Rightarrow> split_vars \<Rightarrow> nat" where
  "passes_left lim from_date v =
     (if split_start v < split_end v \<and> total_results v < lim
      then 1 + nat (split_start v - from_date) else 0)"

lemma passes_left_advance:
  assumes "split_start v < split_end v" and "total_results v < lim"
  shows "Suc (passes_left lim from_date (advance lim from_date v result))
           \<le> passes_left lim from_date v"
proof (cases "total_results (advance lim from_date v result) < lim")
  case True
  from advance_window [OF True] assms show ?thesis
    by (auto simp add: passes_left_def)
next
  case False
  with assms show ?thesis by (simp add: passes_left_def)
qed

lemma loop_calls_bound:
  "length (calls (snd (time_split_loop ts runner request lim from_date v m)))
     \<le> length (calls m) + passes_left lim from_date v"
proof (induction v m rule: loop_induct [where ts = ts and runner = runner and request = request
      and lim = lim and from_date = from_date])
  case (stop v m)
  then show ?case by (simp add: loop_stop)
next
  case (pass v m result left w)
  from pass(4) passes_left_advance [OF pass(1,2), of from_date result]
  show ?case
    by (simp add: loop_pass [where runner = runner, OF pass(1,2,3)])
qed

lemma ceil_div_positive: "0 < a \<Longrightarrow> 0 < b \<Longrightarrow> 1 \<le> ceil_div a b"
proof -
  assume "0 < a" and "0 < b"
  then have "(- a) div b < 0"
    by (simp add: pos_imp_zdiv_neg_iff)
  then show ?thesis
    by (simp add: ceil_div_def)
qed

text \<open>
  \<open>window_ok\<close>: the step is positive, and the window either is not empty or has
  shrunk to the lower end of the range.
\<close>

definition window_ok :: "int \<Rightarrow> split_vars \<Rightarrow> bool" where
  "window_ok from_date v \<longleftrightarrow>
     0 < split_step v \<and> from_date \<le> split_start v
     \<and> (split_start v < split_end v \<or> (split_start v = from_date \<and> split_end v = from_date))"

lemma next_window_step_eq:
  "split_step (next_window lim from_date v counted) =
     (if counted = 0 then split_step v * 10
      else split_step v * ceil_div (lim - total_results v) (int counted))"
  by (simp add: next_window_def Let_def STEP_GROWTH_def)

lemma next_window_step:
  assumes "0 < split_step v" and "total_results v < lim"
  shows "split_step v \<le> split_step (next_window lim from_date v counted)"
proof (cases "counted = 0")
  case True
  with assms show ?thesis
    by (simp add: next_window_step_eq)
next
  case False
  with assms have "1 \<le> ceil_div (lim - total_results v) (int counted)"
    by (intro ceil_div_positive) simp_all
  with assms(1) have "split_step v * 1 \<le> split_step v * ceil_div (lim - total_results v) (int counted)"
    by (intro mult_left_mono) simp_all
  with False show ?thesis
    by (simp add: next_window_step_eq)
qed

lemma next_window_start_cases:
  "split_start (next_window lim from_date v counted) = from_date
   \<or> split_start (next_window lim from_date v counted)
       = max (split_start v - split_step (next_window lim from_date v counted)) from_date"
  by (auto simp: next_window_def Let_def minus_seconds_def datetime_sub_def datetime_add_def
        timedelta_seconds_def split: sum.splits if_splits)

lemma next_window_ok:
  assumes "window_ok from_date v" and "total_results v < lim"
  shows "window_ok from_date (next_window lim from_date v counted)"
proof -
  let ?n = "next_window lim from_date v counted"
  from assms have s: "0 < split_step ?n"
    using next_window_step [of v lim from_date counted] by (simp add: window_ok_def)
  from assms(1) have f: "from_date \<le> split_start v"
    by (simp add: window_ok_def)
  from next_window_start_cases [of lim from_date v counted] s f
  have "split_start ?n < split_start v \<or> (split_start ?n = from_date \<and> split_start v = from_date)"
    by auto
  with s show ?thesis
    by (simp add: window_ok_def next_window_simps next_window_start)
qed

lemma advance_ok:
  assumes "window_ok from_date v"
  shows "window_ok from_date (advance lim from_date v result)"
proof -
  let ?kept = "fst (trim_offset (remaining_offset v) (extend_overall (overall_result v) result))"
  let ?v1 = "v\<lparr>overall_result := Some ?kept, total_results := int (length (data ?kept)),
      remaining_offset := snd (trim_offset (remaining_offset v) (extend_overall (overall_result v) result))\<rparr>"
  from assms have ok1: "window_ok from_date ?v1"
    by (simp add: window_ok_def)
  show ?thesis
  proof (cases "total_results ?v1 < lim")
    case True
    with next_window_ok [OF ok1 True] show ?thesis
      by (simp add: advance_def Let_def)
  next
    case False
    with ok1 show ?thesis
      by (simp add: advance_def Let_def)
  qed
qed

lemma loop_exhausts:
  assumes "window_ok from_date v"
  shows "window_ok from_date (fst (time_split_loop ts runner request lim from_date v m))
     \<and> (total_results (fst (time_split_loop ts runner request lim from_date v m)) < lim \<longrightarrow>
          split_start (fst (time_split_loop ts runner request lim from_date v m)) = from_date
          \<and> split_end (fst (time_split_loop ts runner request lim from_date v m)) = from_date)"
  using assms
proof (induction v m rule: loop_induct [where ts = ts and runner = runner and request = request
      and lim = lim and from_date = from_date])
  case (stop v m)
  then show ?case
    by (auto simp add: loop_stop window_ok_def)
next
  case (pass v m result left w)
  from pass(4) [OF advance_ok [OF pass(5)]] show ?case
    by (simp add: loop_pass [where runner = runner, OF pass(1,2,3)])
qed


lemma advance_result_some: "overall_result (advance lim from_date v result) \<noteq> None"
  by (simp add: advance_def Let_def next_window_simps)

lemma loop_keeps_result:
  assumes "overall_result v \<noteq> None"
  shows "overall_result (fst (time_split_loop ts runner request lim from_date v m)) \<noteq> None"
  using assms
proof (induction v m rule: loop_induct [where ts = ts and runner = runner and request = request
      and lim = lim and from_date = from_date])
  case (stop v m)
  then show ?case by (simp add: loop_stop)
next
  case (pass v m result left w)
  from pass(4) [OF advance_result_some] show ?case
    by (simp add: loop_pass [where runner = runner, OF pass(1,2,3)])
qed

lemma loop_result_some:
  assumes "split_start v < split_end v" and "total_results v < lim"
  shows "overall_result (fst (time_split_loop ts runner request lim from_date v m)) \<noteq> None"
proof -
  let ?r = "runner (sub_request ts lim v (heap m ! request)) (world m)"
  have r: "?r = ((fst (fst ?r), snd (fst ?r)), snd ?r)"
    by simp
  show ?thesis
    unfolding loop_pass [where runner = runner, OF assms r]
    by (rule loop_keeps_result [OF advance_result_some])
qed

lemma advance_empty:
  assumes "data result = []" and "collected v = []"
  shows "collected (advance lim from_date v result) = []"
    and "total_results (advance lim from_date v result) = 0"
proof -
  from assms have "data (extend_overall (overall_result v) result) = []"
    by (cases "overall_result v") (simp_all add: extend_overall_def collected_def)
  then have "data (fst (trim_offset (remaining_offset v) (extend_overall (overall_result v) result))) = []"
    by (simp add: trim_offset_def)
  then show "collected (advance lim from_date v result) = []"
    and "total_results (advance lim from_date v result) = 0"
    by (simp_all add: advance_def Let_def collected_def next_window_simps)
qed

lemma loop_empty:
  assumes none: "\<forall>req w. data (fst (fst (runner req w))) = []"
    and "collected v = []" and "total_results v = 0"
  shows "collected (fst (time_split_loop ts runner request lim from_date v m)) = []
     \<and> total_results (fst (time_split_loop ts runner request lim from_date v m)) = 0"
  using assms(2,3)
proof (induction v m rule: loop_induct [where ts = ts and runner = runner and request = request
      and lim = lim and from_date = from_date])
  case (stop v m)
  then show ?case by (simp add: loop_stop)
next
  case (pass v m result left w)
  from none pass(3) have "data result = []"
    by (metis fst_conv)
  from pass(4) [OF advance_empty [OF this pass(5)]] show ?case
    by (simp add: loop_pass [where runner = runner, OF pass(1,2,3)])
qed

section \<open>Termination of the time split\<close>

text \<open>
  C6. \<open>time_split_loop\<close> is a total function: the loop returns for every runner and
  every state. Started as \<^verbatim>\<open>execute\<close> starts it, on a range \<open>from_date < to_date\<close>
  with a positive step and a positive limit, it makes at most \<open>to_date - from_date\<close>
  passes (one runner call each), whatever the runner answers. If the runner returns
  no rows for every probe, the loop ends with \<open>split_start\<close> and \<open>split_end\<close> at
  \<open>from_date\<close>, the range exhausted, holding an empty result.
\<close>

theorem time_split_loop_terminates:
  assumes range: "from_date < to_date" and step: "0 < step" and lim: "0 < lim"
    and run: "time_split_loop ts runner request lim from_date
                \<lparr>overall_result = None, split_start = max (to_date - step) from_date,
                 split_end = to_date, split_step = step, total_results = 0,
                 remaining_offset = remaining\<rparr> m = (v', m')"
  shows "length (calls m') \<le> length (calls m) + nat (to_date - from_date)
     \<and> overall_result v' \<noteq> None
     \<and> ((\<forall>req w. data (fst (fst (runner req w))) = []) \<longrightarrow>
          split_start v' = from_date \<and> split_end v' = from_date \<and> collected v' = [])"
proof -
  let ?v = "\<lparr>overall_result = None, split_start = max (to_date - step) from_date,
             split_end = to_date, split_step = step, total_results = 0,
             remaining_offset = remaining\<rparr>"
  from range step lim have "passes_left lim from_date ?v \<le> nat (to_date - from_date)"
    by (auto simp: passes_left_def)
  with loop_calls_bound [of ts runner request lim from_date ?v m] run
  have bound: "length (calls m') \<le> length (calls m) + nat (to_date - from_date)"
    by simp
  from range step lim have "split_start ?v < split_end ?v" and "total_results ?v < lim"
    by simp_all
  from loop_result_some [OF this, of ts runner request from_date m] run
  have some: "overall_result v' \<noteq> None"
    by simp
  from range step have ok: "window_ok from_date ?v"
    by (auto simp: window_ok_def)
  have "split_start v' = from_date \<and> split_end v' = from_date \<and> collected v' = []"
    if none: "\<forall>req w. data (fst (fst (runner req w))) = []"
  proof -
    from loop_empty [OF none, of ?v ts request lim from_date m] run
    have "collected v' = []" and "total_results v' = 0"
      by (simp_all add: collected_def)
    with lim loop_exhausts [OF ok, of ts runner request lim m] run show ?thesis
      by simp
  qed
  with bound some show ?thesis
    by blast
qed


theorem time_split_loop_terminates_witness:
  "length (calls (snd (time_split_loop ''timestamp'' (store_runner ''timestamp'' example_time [])
       0 5 63000000000
       \<lparr>overall_result = None, split_start = max (63000007200 - 3600) 63000000000,
          split_end = 63000007200, split_step = 3600, total_results = 0, remaining_offset = 0\<rparr>
       (initial_machine example_request ())))) \<le> 7200
   \<and> split_start (fst (time_split_loop ''timestamp'' (store_runner ''timestamp'' example_time [])
       0 5 63000000000
       \<lparr>overall_result = None, split_start = max (63000007200 - 3600) 63000000000,
          split_end = 63000007200, split_step = 3600, total_results = 0, remaining_offset = 0\<rparr>
       (initial_machine example_request ()))) = 63000000000
   \<and> collected (fst (time_split_loop ''timestamp'' (store_runner ''timestamp'' example_time [])
       0 5 63000000000
       \<lparr>overall_result = None, split_start = max (63000007200 - 3600) 63000000000,
          split_end = 63000007200, split_step = 3600, total_results = 0, remaining_offset = 0\<rparr>
       (initial_machine example_request ()))) = []"
  using time_split_loop_terminates [where from_date = 63000000000 and to_date = 63000007200
      and step = 3600 and lim = 5 and remaining = 0 and ts = "''timestamp''" and request = 0
      and runner = "store_runner ''timestamp'' example_time []"
      and m = "initial_machine example_request ()", OF _ _ _ surjective_pairing]
  by (auto simp add: store_runner_def store_rows_def initial_machine_def split: option.splits)

section \<open>The rows the time split returns\<close>


























end
